theory Spec2Isabelle
  imports Main "HOL-Library.Word" "HOL-Library.Sublist"
begin

section \<open>micropiscope: button, storage and capture control of the camera appliance\<close>

text \<open>
  A shallow embedding of \<^verbatim>\<open>apps/micropiscope.cpp\<close>. Pure helpers are HOL functions;
  everything the program does to its surroundings (log lines, system calls, pipeline
  commands) is recorded, in order, in a list of \<open>action\<close>s; what the surroundings
  answer (the mount table, the result of each system call, the clock) is read from an
  \<open>os_env\<close> record; a C++ exception is the \<open>Inl\<close> branch of a sum.
\<close>

subsection \<open>Constants\<close>

definition KEY_UP :: int where "KEY_UP = 15"
definition KEY_DOWN :: int where "KEY_DOWN = 4"
definition KEY_LEFT :: int where "KEY_LEFT = 17"
definition KEY_RIGHT :: int where "KEY_RIGHT = 2"
definition KEY_MENU :: int where "KEY_MENU = 14"
definition KEY_POWER :: int where "KEY_POWER = 18"

text \<open>The pigpio levels of an alert: 0 is low, 1 is high, 2 is a watchdog timeout.\<close>

definition PI_LOW :: int where "PI_LOW = 0"
definition PI_HIGH :: int where "PI_HIGH = 1"

text \<open>Durations of \<^verbatim>\<open>std::chrono\<close> are counted in nanoseconds.\<close>

definition UMOUNT_TIMEOUT_S :: nat where "UMOUNT_TIMEOUT_S = 5 * 1000000000"
definition SLEEP_1000MS :: nat where "SLEEP_1000MS = 1000 * 1000000"

subsection \<open>String searching\<close>

text \<open>
  \<^verbatim>\<open>std::string::find\<close> returns an index or \<^verbatim>\<open>npos\<close>, the largest
  \<^verbatim>\<open>size_t\<close>. The model writes a found index \<open>i\<close> as \<open>Some i\<close> and
  \<^verbatim>\<open>npos\<close> as \<open>None\<close>; the two places where the source computes with a possible
  \<^verbatim>\<open>npos\<close> are written out below (\<open>npos_succ\<close>, \<open>substr\<close>). A string is shorter than
  \<^verbatim>\<open>npos\<close>, so this is what the unsigned arithmetic does at every width of
  \<^verbatim>\<open>size_t\<close>.
\<close>

fun find_char :: "char \<Rightarrow> string \<Rightarrow> nat option" where
  "find_char c [] = None"
| "find_char c (x # xs) = (if x = c then Some 0 else map_option Suc (find_char c xs))"

text \<open>\<^verbatim>\<open>s.find(c, pos)\<close>: the first index at or after \<open>pos\<close> that holds \<open>c\<close>.\<close>

definition find_char_from :: "char \<Rightarrow> string \<Rightarrow> nat \<Rightarrow> nat option" where
  "find_char_from c s pos = map_option (\<lambda>i. pos + i) (find_char c (drop pos s))"

text \<open>\<^verbatim>\<open>s.find(pat)\<close>: the first index where \<open>pat\<close> starts.\<close>

fun find_str :: "string \<Rightarrow> string \<Rightarrow> nat option" where
  "find_str pat [] = (if pat = [] then Some 0 else None)"
| "find_str pat (c # cs) =
     (if prefix pat (c # cs) then Some 0 else map_option Suc (find_str pat cs))"

text \<open>\<^verbatim>\<open>start + 1\<close> on \<^verbatim>\<open>size_t\<close>: \<^verbatim>\<open>npos + 1\<close> wraps to 0.\<close>

definition npos_succ :: "nat option \<Rightarrow> nat" where
  "npos_succ start = (case start of None \<Rightarrow> 0 | Some i \<Rightarrow> i + 1)"

text \<open>
  \<^verbatim>\<open>line.substr(start + 1, end - start - 1)\<close>. With \<open>end\<close> found, the count is
  \<open>end - (start + 1)\<close>. With \<open>end = npos\<close> the count \<^verbatim>\<open>npos - start - 1\<close> is at least
  the number of characters left, and \<^verbatim>\<open>substr\<close> stops at the end of the string.
  The position \<open>start + 1\<close> is never beyond the size, so \<^verbatim>\<open>substr\<close> does not throw.
\<close>

definition substr :: "string \<Rightarrow> nat option \<Rightarrow> nat option \<Rightarrow> string" where
  "substr line start end' =
     (case end' of
        None \<Rightarrow> drop (npos_succ start) line
      | Some e \<Rightarrow> take (e - npos_succ start) (drop (npos_succ start) line))"

subsection \<open>Storage locator\<close>

text \<open>
  The body of the \<^verbatim>\<open>while (std::getline(mounts, line))\<close> loop: the new value of
  \<^verbatim>\<open>mountLocation\<close> after one line.
\<close>

definition scan_line :: "string \<Rightarrow> string \<Rightarrow> string" where
  "scan_line mountLocation line =
     (if find_str ''/media/'' line \<noteq> None then
        (let start = find_char_from (CHR '' '') line 0;
             end' = find_char_from (CHR '' '') line (npos_succ start)
         in substr line start end')
      else mountLocation)"

text \<open>
  The argument is the content of \<^verbatim>\<open>/proc/mounts\<close> as its list of lines, or \<open>None\<close>
  when the file cannot be opened. The function only reads.
\<close>

definition get_mount_location :: "string list option \<Rightarrow> string" where
  "get_mount_location mounts =
     (case mounts of
        None \<Rightarrow> []
      | Some lines \<Rightarrow> foldl scan_line [] lines)"

text \<open>
  The mount-point field of a mount-table line, in the words of the mount table's format:
  the text after the first space, up to the next space or the end of the line. (A line
  without any space has no fields; the source then takes the whole line.)
\<close>

definition mount_point_field :: "string \<Rightarrow> string" where
  "mount_point_field line =
     (if CHR '' '' \<in> set line
      then takeWhile (\<lambda>c. c \<noteq> CHR '' '') (drop 1 (dropWhile (\<lambda>c. c \<noteq> CHR '' '') line))
      else line)"

subsection \<open>What the program does and what it is told\<close>

datatype action =
    LogError string
  | Log string
  | Print string
  | Sync
  | Umount string "string option"
  | Umount2Force string "string option"
  | SleepFor nat
  | Now nat
  | CreateDirectory string
  | JpegSave string
  | Reboot
  | OpenCamera
  | ConfigureViewfinder
  | ConfigureStill
  | StartCamera
  | StopCamera
  | Teardown
  | ShowPreview

datatype exn = FilesystemError | RuntimeError string

datatype mkdir_outcome = Created | AlreadyThere | Failed

text \<open>\<^verbatim>\<open>struct tm\<close>, the fields the format reads.\<close>

record tm =
  tm_year :: int
  tm_mon :: int
  tm_mday :: int
  tm_hour :: int
  tm_min :: int
  tm_sec :: int

text \<open>
  The answers of the operating system.
  \<^item> \<open>proc_mounts\<close>: the lines of \<^verbatim>\<open>/proc/mounts\<close>, \<open>None\<close> when it cannot be opened.
  \<^item> \<open>umount path k\<close>: the result of the \<open>k\<close>-th call (from 0) of \<^verbatim>\<open>umount(path)\<close>
    in one run of \<open>unmount_drive\<close>: \<open>None\<close> when it returns 0, \<open>Some e\<close> when it returns
    -1, with \<open>e\<close> the text of \<^verbatim>\<open>strerror(errno)\<close>.
  \<^item> \<open>umount2_force path\<close>: the same for \<^verbatim>\<open>umount2(path, MNT_FORCE)\<close>.
  \<^item> \<open>lag k\<close>: the nanoseconds that round \<open>k\<close> of the retry loop takes beyond the
    1000 ms it asks to sleep (the system call, the log line, a late wake-up).
    \<^verbatim>\<open>sleep_for\<close> blocks for at least the time asked and the clock does not run
    backwards, so a round takes \<open>SLEEP_1000MS + lag k\<close>.
  \<^item> \<open>status_fails path\<close>: \<^verbatim>\<open>std::filesystem::status(path)\<close> fails with an error other
    than "not found", so the throwing \<^verbatim>\<open>is_directory(path)\<close> throws.
  \<^item> \<open>mkdir path\<close>: what \<^verbatim>\<open>mkdir\<close> does when the directory is not there yet.
    \<open>AlreadyThere\<close>: another process has made it since the check.
  \<^item> \<open>localtime\<close>: the broken-down local time of \<^verbatim>\<open>std::time\<close>.
  \<^item> \<open>jpeg_save path\<close>: the still encoder, which is not in this file: \<open>None\<close> when the
    call returns, \<open>Some e\<close> when it throws \<open>e\<close>.
\<close>

record os_env =
  proc_mounts :: "string list option"
  umount :: "string \<Rightarrow> nat \<Rightarrow> string option"
  umount2_force :: "string \<Rightarrow> string option"
  lag :: "nat \<Rightarrow> nat"
  status_fails :: "string \<Rightarrow> bool"
  mkdir :: "string \<Rightarrow> mkdir_outcome"
  localtime :: tm
  jpeg_save :: "string \<Rightarrow> exn option"

subsection \<open>Storage unmount manager\<close>

text \<open>
  The \<^verbatim>\<open>while (umount(...) < 0)\<close> loop. \<open>k\<close> counts the calls of \<^verbatim>\<open>umount\<close> made
  so far and \<open>elapsed\<close> is the clock at the start of the round, from \<^verbatim>\<open>start_time\<close>. The
  result is what the loop does, in order. \<open>Now t\<close> is the reading \<^verbatim>\<open>now - start_time\<close>.
\<close>

function unmount_loop :: "os_env \<Rightarrow> string \<Rightarrow> nat \<Rightarrow> nat \<Rightarrow> action list" where
  "unmount_loop env loc k elapsed =
     (case umount env loc k of
        None \<Rightarrow> [Umount loc None]
      | Some err \<Rightarrow>
          [Umount loc (Some err),
           Log (''Re-attempting to unmount device. Error: '' @ err),
           SleepFor 1000,
           Now (elapsed + SLEEP_1000MS + lag env k)] @
          (if elapsed + SLEEP_1000MS + lag env k > UMOUNT_TIMEOUT_S then
             [Log (''Attempting to force unmount device. Error: '' @ err),
              Umount2Force loc (umount2_force env loc)] @
             (case umount2_force env loc of
                None \<Rightarrow> []
              | Some e2 \<Rightarrow> [LogError ''ERROR Failed to unmount device''])
           else unmount_loop env loc (Suc k) (elapsed + SLEEP_1000MS + lag env k)))"
  by pat_completeness auto
termination
  by (relation "measure (\<lambda>(env, loc, k, elapsed). Suc UMOUNT_TIMEOUT_S - elapsed)")
     (auto simp: SLEEP_1000MS_def)

declare unmount_loop.simps [simp del]

definition unmount_drive :: "os_env \<Rightarrow> action list" where
  "unmount_drive env =
     (let mountLocation = get_mount_location (proc_mounts env) in
        (if mountLocation = []
         then [LogError ''ERROR Unmounting drive, cannot find mount location'']
         else []) @
        [Sync] @
        unmount_loop env mountLocation 0 0)"

subsection \<open>Program state\<close>

text \<open>
  Modelled from the spec: the base class \<^verbatim>\<open>RPiCamApp\<close> (\<^verbatim>\<open>core/rpicam_app.hpp\<close>) is not
  in this file. Of the pipeline the model keeps which stream is configured and whether
  the camera runs: \<^verbatim>\<open>ConfigureViewfinder\<close> and \<^verbatim>\<open>ConfigureStill\<close> select the mode,
  \<^verbatim>\<open>Teardown\<close> leaves no stream configured, \<^verbatim>\<open>StartCamera\<close> and \<^verbatim>\<open>StopCamera\<close>
  start and stop the pipeline, and \<^verbatim>\<open>ViewfinderStream()\<close>, \<^verbatim>\<open>StillStream()\<close> are
  non-null exactly in their mode. These calls are taken to return normally.
\<close>

datatype stream_cfg = NoStream | ViewfinderCfg | StillCfg

text \<open>
  \<open>doShutdown\<close> and \<open>takeImage\<close> are the members of \<^verbatim>\<open>RPiCamJpegApp\<close>;
  \<open>keyPowerTimeStart\<close> is the function-local \<^verbatim>\<open>static\<close> of \<^verbatim>\<open>_callback\<close>,
  \<open>None\<close> until its declaration is first reached; \<open>dirs\<close> is the set of directories
  of the file system; \<open>trace\<close> is what the program has done so far, oldest first.
\<close>

record state =
  doShutdown :: bool
  takeImage :: bool
  keyPowerTimeStart :: "32 word option"
  config :: stream_cfg
  running :: bool
  dirs :: "string set"
  trace :: "action list"

definition emit :: "action list \<Rightarrow> state \<Rightarrow> state" where
  "emit as s = s\<lparr>trace := trace s @ as\<rparr>"

definition app_init :: "string set \<Rightarrow> state" where
  "app_init ds = \<lparr>doShutdown = False, takeImage = False, keyPowerTimeStart = None,
     config = NoStream, running = False, dirs = ds, trace = []\<rparr>"

definition open_camera :: "state \<Rightarrow> state" where
  "open_camera s = emit [OpenCamera] s"

definition configure_viewfinder :: "state \<Rightarrow> state" where
  "configure_viewfinder s = emit [ConfigureViewfinder] (s\<lparr>config := ViewfinderCfg\<rparr>)"

definition configure_still :: "state \<Rightarrow> state" where
  "configure_still s = emit [ConfigureStill] (s\<lparr>config := StillCfg\<rparr>)"

definition teardown :: "state \<Rightarrow> state" where
  "teardown s = emit [Teardown] (s\<lparr>config := NoStream\<rparr>)"

definition start_camera :: "state \<Rightarrow> state" where
  "start_camera s = emit [StartCamera] (s\<lparr>running := True\<rparr>)"

definition stop_camera :: "state \<Rightarrow> state" where
  "stop_camera s = emit [StopCamera] (s\<lparr>running := False\<rparr>)"

subsection \<open>Filename generator\<close>

text \<open>
  The throwing overloads of \<^verbatim>\<open>std::filesystem\<close> are the ones the source calls:
  \<^verbatim>\<open>is_directory(p)\<close> throws \<^verbatim>\<open>filesystem_error\<close> when the status of \<open>p\<close> cannot be
  read; \<^verbatim>\<open>create_directory(p)\<close> returns true when it has made the directory, returns
  false when \<open>p\<close> is a directory already, and throws \<^verbatim>\<open>filesystem_error\<close> on every
  other failure of \<^verbatim>\<open>mkdir\<close>.
\<close>

definition is_directory :: "os_env \<Rightarrow> string \<Rightarrow> state \<Rightarrow> exn + bool" where
  "is_directory env p s = (if status_fails env p then Inl FilesystemError else Inr (p \<in> dirs s))"

definition create_directory :: "os_env \<Rightarrow> string \<Rightarrow> state \<Rightarrow> (exn + bool) \<times> state" where
  "create_directory env p s =
     (if p \<in> dirs s then (Inr False, s)
      else case mkdir env p of
        Created \<Rightarrow> (Inr True, emit [CreateDirectory p] (s\<lparr>dirs := insert p (dirs s)\<rparr>))
      | AlreadyThere \<Rightarrow> (Inr False, s\<lparr>dirs := insert p (dirs s)\<rparr>)
      | Failed \<Rightarrow> (Inl FilesystemError, s))"

text \<open>Decimal digits, as \<^verbatim>\<open>strftime\<close> prints numbers.\<close>

definition digit :: "nat \<Rightarrow> char" where
  "digit d = ''0123456789'' ! d"

function dec :: "nat \<Rightarrow> string" where
  "dec n = (if n < 10 then [digit n] else dec (n div 10) @ [digit (n mod 10)])"
  by pat_completeness auto
termination
  by (relation "measure id") auto

declare dec.simps [simp del]

definition show_int :: "int \<Rightarrow> string" where
  "show_int i = (if i < 0 then ''-'' @ dec (nat (- i)) else dec (nat i))"

text \<open>A two-digit field (\<^verbatim>\<open>%m %d %H %M %S\<close>): padded with a zero.\<close>

definition pad2 :: "int \<Rightarrow> string" where
  "pad2 i = (if 0 \<le> i \<and> i < 10 then ''0'' @ show_int i else show_int i)"

text \<open>
  \<^verbatim>\<open>strftime(time_string, 32, "%Y-%m-%d-%H-%M-%S", time_info)\<close>. \<^verbatim>\<open>%Y\<close> is the year
  \<open>tm_year + 1900\<close> as a decimal number and \<^verbatim>\<open>%m\<close> is \<open>tm_mon + 1\<close>. The fields of
  \<^verbatim>\<open>struct tm\<close> are C ints, so the text has at most 26 characters and fits the 32
  bytes of \<^verbatim>\<open>time_string\<close>.
\<close>

definition strftime :: "tm \<Rightarrow> string" where
  "strftime t =
     show_int (tm_year t + 1900) @ ''-'' @ pad2 (tm_mon t + 1) @ ''-'' @ pad2 (tm_mday t) @ ''-'' @
     pad2 (tm_hour t) @ ''-'' @ pad2 (tm_min t) @ ''-'' @ pad2 (tm_sec t)"

text \<open>
  The tail of \<^verbatim>\<open>generate_filename\<close>, from \<^verbatim>\<open>char filename[128]\<close> on.
  \<^verbatim>\<open>snprintf(filename, 128, ...)\<close> keeps at most 127 characters.
\<close>

definition stamp_filename :: "os_env \<Rightarrow> string \<Rightarrow> state \<Rightarrow> (exn + string) \<times> state" where
  "stamp_filename env mountLocation s =
     (let time_string = strftime (localtime env);
          filename = take 127 (time_string @ ''.jpg'');
          mountLocation = mountLocation @ ''/'' @ filename
      in (Inr mountLocation, emit [Print (''Saving image at '' @ mountLocation)] s))"

text \<open>The result is \<open>Inr\<close> of the returned string (empty: no destination) or \<open>Inl\<close> of
  the exception that leaves the function.\<close>

definition generate_filename :: "os_env \<Rightarrow> state \<Rightarrow> (exn + string) \<times> state" where
  "generate_filename env s =
     (let mountLocation = get_mount_location (proc_mounts env) in
      if mountLocation = [] then (Inr [], s)
      else
        let mountLocation = mountLocation @ ''/micropiscope'' in
        case is_directory env mountLocation s of
          Inl e \<Rightarrow> (Inl e, s)
        | Inr True \<Rightarrow> stamp_filename env mountLocation s
        | Inr False \<Rightarrow>
            (case create_directory env mountLocation s of
               (Inl e, s') \<Rightarrow> (Inl e, s')
             | (Inr False, s') \<Rightarrow> (Inr [], s')
             | (Inr True, s') \<Rightarrow> stamp_filename env mountLocation s'))"

subsection \<open>Button input classifier\<close>

text \<open>
  \<^verbatim>\<open>RPiCamJpegApp::_callback(gpio, level, tick)\<close>. The static
  \<^verbatim>\<open>keyPowerTimeStart\<close> is initialised with the tick of the first Power alert. The
  comparison is on \<^verbatim>\<open>uint32_t\<close>: the subtraction wraps and the order is unsigned.
\<close>

definition callback :: "os_env \<Rightarrow> int \<Rightarrow> int \<Rightarrow> 32 word \<Rightarrow> state \<Rightarrow> state" where
  "callback env gpio level tick s =
     (if gpio = KEY_POWER then
        (let start = (case keyPowerTimeStart s of None \<Rightarrow> tick | Some t \<Rightarrow> t) in
         if level = PI_LOW then s\<lparr>keyPowerTimeStart := Some tick\<rparr>
         else if level = PI_HIGH \<and> tick - start > 2000 * 1000 then
           emit [Log ''KEY POWER''] (s\<lparr>keyPowerTimeStart := Some start, doShutdown := True\<rparr>)
         else s\<lparr>keyPowerTimeStart := Some start\<rparr>)
      else if gpio = KEY_MENU \<and> level = PI_LOW then
        emit [Log ''KEY MENU''] (s\<lparr>takeImage := True\<rparr>)
      else if gpio = KEY_DOWN \<and> level = PI_LOW then
        emit (Log ''KEY DOWN'' # unmount_drive env) s
      else s)"

text \<open>The two clear-on-read accessors: the value returned and the state left.\<close>

definition DoShutdown :: "state \<Rightarrow> bool \<times> state" where
  "DoShutdown s = (if doShutdown s then (True, s\<lparr>doShutdown := False\<rparr>) else (False, s))"

definition TakeImage :: "state \<Rightarrow> bool \<times> state" where
  "TakeImage s = (if takeImage s then (True, s\<lparr>takeImage := False\<rparr>) else (False, s))"

subsection \<open>Event loop\<close>

datatype msg_type = RequestComplete | Timeout | Quit | OtherMsg

text \<open>
  What one pass of the \<^verbatim>\<open>for (;;)\<close> body does: go on to the next pass, return from
  \<open>event_loop\<close>, or leave it by an exception.
\<close>

datatype outcome = Continue state | Returned state | Thrown exn state

fun state_of :: "outcome \<Rightarrow> state" where
  "state_of (Continue s) = s"
| "state_of (Returned s) = s"
| "state_of (Thrown e s) = s"

text \<open>The \<^verbatim>\<open>else if (app.StillStream())\<close> branch.\<close>

definition still_capture :: "os_env \<Rightarrow> state \<Rightarrow> outcome" where
  "still_capture env s =
     (let s1 = emit [Log ''Still capture image received''] (stop_camera s) in
      case generate_filename env s1 of
        (Inl e, s2) \<Rightarrow> Thrown e s2
      | (Inr filename, s2) \<Rightarrow>
          if filename = [] then
            Continue (start_camera (configure_viewfinder (teardown
              (emit [LogError ''Cannot save image, no mounted drive!''] s2))))
          else
            (case jpeg_save env filename of
               Some e \<Rightarrow> Thrown e (emit [JpegSave filename] s2)
             | None \<Rightarrow>
                 Continue (start_camera (configure_viewfinder (teardown
                   (emit [JpegSave filename] s2))))))"

text \<open>One pass of the loop body on the message that \<^verbatim>\<open>app.Wait()\<close> returned.\<close>

definition iteration :: "os_env \<Rightarrow> msg_type \<Rightarrow> state \<Rightarrow> outcome" where
  "iteration env msg s =
     (if msg = Timeout then
        Continue (start_camera (stop_camera
          (emit [LogError ''ERROR: Device timeout detected, attempting a restart!!!''] s)))
      else if msg = Quit then Returned s
      else if msg \<noteq> RequestComplete then Thrown (RuntimeError ''unrecognised message!'') s
      else if config s = ViewfinderCfg then
        (case TakeImage s of
           (True, s1) \<Rightarrow>
             Continue (start_camera (configure_still (teardown (stop_camera s1))))
         | (False, s1) \<Rightarrow>
             (case DoShutdown s1 of
                (True, s2) \<Rightarrow>
                  Returned (emit [Log ''Shutting down!'', Sync, Reboot]
                    (teardown (stop_camera s2)))
              | (False, s2) \<Rightarrow> Continue (emit [ShowPreview] s2)))
      else if config s = StillCfg then still_capture env s
      else Continue s)"

text \<open>
  What reaches the program, in order: an alert of the GPIO library (which calls
  \<open>callback\<close>) or a message of the pipeline (which \<^verbatim>\<open>app.Wait()\<close> returns). Each comes
  with the answers of the operating system at that moment. Alerts are taken between
  two passes of the loop.
\<close>

datatype event = Gpio int int "32 word" | Msg msg_type

fun run :: "(os_env \<times> event) list \<Rightarrow> state \<Rightarrow> outcome" where
  "run [] s = Continue s"
| "run ((env, Gpio gpio level tick) # es) s = run es (callback env gpio level tick s)"
| "run ((env, Msg msg) # es) s =
     (case iteration env msg s of
        Continue s' \<Rightarrow> run es s'
      | Returned s' \<Rightarrow> Returned s'
      | Thrown e s' \<Rightarrow> Thrown e s')"

text \<open>\<open>Continue\<close> as the result of \<open>event_loop\<close>: the loop waits for the next message.\<close>

definition event_loop :: "(os_env \<times> event) list \<Rightarrow> state \<Rightarrow> outcome" where
  "event_loop es s = run es (start_camera (configure_viewfinder (open_camera s)))"

text \<open>
  \<^verbatim>\<open>main\<close>: the exit status, \<open>None\<close> while the loop still waits. \<open>gpio_ok\<close> says that
  \<^verbatim>\<open>gpioInitialise()\<close> did not fail, \<open>parse_ok\<close> is the result of
  \<^verbatim>\<open>options->Parse\<close>.
\<close>

definition main :: "bool \<Rightarrow> bool \<Rightarrow> string set \<Rightarrow> (os_env \<times> event) list \<Rightarrow> int option \<times> state" where
  "main gpio_ok parse_ok ds es =
     (if \<not> gpio_ok then (Some (- 1), emit [LogError ''ERROR: *** GPIO init failed ***''] (app_init ds))
      else if parse_ok then
        (case event_loop es (app_init ds) of
           Continue s \<Rightarrow> (None, s)
         | Returned s \<Rightarrow> (Some 0, s)
         | Thrown e s \<Rightarrow> (Some (- 1), emit [LogError ''ERROR: *** exception ***''] s))
      else (Some 0, app_init ds))"

subsection \<open>Observers and drivers used in the statements\<close>

text \<open>The two kinds of unmount attempt in a trace.\<close>

fun is_umount :: "action \<Rightarrow> bool" where
  "is_umount (Umount p r) = True"
| "is_umount a = False"

fun is_forced :: "action \<Rightarrow> bool" where
  "is_forced (Umount2Force p r) = True"
| "is_forced a = False"

text \<open>The reading of the clock at the start of round \<open>k\<close> of the retry loop.\<close>

fun clock_at :: "os_env \<Rightarrow> nat \<Rightarrow> nat" where
  "clock_at env 0 = 0"
| "clock_at env (Suc k) = clock_at env k + SLEEP_1000MS + lag env k"

text \<open>
  The retry policy in the words of the specification. A retry round is a failed normal
  attempt, its log line, the sleep of one second and the reading of the clock. A forced
  unmount is its log line, the one forced attempt, and an error line when that fails.
  The last round is a normal attempt that succeeds, or a retry round followed by the
  forced unmount.
\<close>

definition spec_retry_round :: "os_env \<Rightarrow> string \<Rightarrow> nat \<Rightarrow> action list" where
  "spec_retry_round env loc k =
     (case umount env loc k of
        None \<Rightarrow> []
      | Some err \<Rightarrow>
          [Umount loc (Some err),
           Log (''Re-attempting to unmount device. Error: '' @ err),
           SleepFor 1000,
           Now (clock_at env (Suc k))])"

definition spec_forced_unmount :: "os_env \<Rightarrow> string \<Rightarrow> nat \<Rightarrow> action list" where
  "spec_forced_unmount env loc k =
     (case umount env loc k of
        None \<Rightarrow> []
      | Some err \<Rightarrow>
          [Log (''Attempting to force unmount device. Error: '' @ err),
           Umount2Force loc (umount2_force env loc)] @
          (if umount2_force env loc = None then []
           else [LogError ''ERROR Failed to unmount device'']))"

definition spec_last_round :: "os_env \<Rightarrow> string \<Rightarrow> nat \<Rightarrow> action list" where
  "spec_last_round env loc k =
     (if umount env loc k = None then [Umount loc None]
      else spec_retry_round env loc k @ spec_forced_unmount env loc k)"

text \<open>A run of alerts of the Power line, given as level and tick.\<close>

definition power_events :: "os_env \<Rightarrow> (int \<times> 32 word) list \<Rightarrow> state \<Rightarrow> state" where
  "power_events env es s = foldl (\<lambda>s (level, tick). callback env KEY_POWER level tick s) s es"

text \<open>
  Edge events in the words of the specification: every level is low or high, each
  differs from the one before (a transition), and the timestamps do not decrease.
\<close>

fun spec_edge_sequence :: "(int \<times> 32 word) list \<Rightarrow> bool" where
  "spec_edge_sequence [] = True"
| "spec_edge_sequence [(l, t)] = (l = PI_LOW \<or> l = PI_HIGH)"
| "spec_edge_sequence ((l0, t0) # (l1, t1) # es) =
     ((l0 = PI_LOW \<or> l0 = PI_HIGH) \<and> l1 \<noteq> l0 \<and> unat t0 \<le> unat t1 \<and>
      spec_edge_sequence ((l1, t1) # es))"

text \<open>
  Some asserted interval lasts more than 2000 ms: a press (low, the line has a pull-up)
  at \<open>t0\<close> directly followed by the release (high) at \<open>t1\<close>, with more than
  2000 * 1000 microseconds between them.
\<close>

fun spec_long_hold :: "(int \<times> 32 word) list \<Rightarrow> bool" where
  "spec_long_hold ((l0, t0) # (l1, t1) # es) =
     ((l0 = PI_LOW \<and> l1 = PI_HIGH \<and> 2000 * 1000 < unat t1 - unat t0) \<or>
      spec_long_hold ((l1, t1) # es))"
| "spec_long_hold es = False"

text \<open>
  Raises and consumptions of the two intent flags, in any order. A capture is raised by
  a press of Menu; a shutdown is raised by a press and a release of Power. The driver
  returns what each consumption returned.
\<close>

datatype intent_op =
    RaiseCapture "32 word"
  | RaiseShutdown "32 word" "32 word"
  | ConsumeCapture
  | ConsumeShutdown

fun intent_ops :: "os_env \<Rightarrow> intent_op list \<Rightarrow> state \<Rightarrow> bool list \<times> state" where
  "intent_ops env [] s = ([], s)"
| "intent_ops env (RaiseCapture tick # ops) s =
     intent_ops env ops (callback env KEY_MENU PI_LOW tick s)"
| "intent_ops env (RaiseShutdown press release # ops) s =
     intent_ops env ops
       (callback env KEY_POWER PI_HIGH release (callback env KEY_POWER PI_LOW press s))"
| "intent_ops env (ConsumeCapture # ops) s =
     (case TakeImage s of (b, s') \<Rightarrow>
        (case intent_ops env ops s' of (bs, s'') \<Rightarrow> (b # bs, s'')))"
| "intent_ops env (ConsumeShutdown # ops) s =
     (case DoShutdown s of (b, s') \<Rightarrow>
        (case intent_ops env ops s' of (bs, s'') \<Rightarrow> (b # bs, s'')))"

text \<open>
  The flags in the words of the specification: two booleans, set by a raise, read and
  cleared by a consumption. The result is what the consumptions return and the flags
  at the end.
\<close>

fun spec_latches :: "intent_op list \<Rightarrow> bool \<times> bool \<Rightarrow> bool list \<times> bool \<times> bool" where
  "spec_latches [] (capture, shutdown) = ([], capture, shutdown)"
| "spec_latches (RaiseCapture tick # ops) (capture, shutdown) =
     spec_latches ops (True, shutdown)"
| "spec_latches (RaiseShutdown press release # ops) (capture, shutdown) =
     spec_latches ops (capture, True)"
| "spec_latches (ConsumeCapture # ops) (capture, shutdown) =
     (case spec_latches ops (False, shutdown) of (bs, fl) \<Rightarrow> (capture # bs, fl))"
| "spec_latches (ConsumeShutdown # ops) (capture, shutdown) =
     (case spec_latches ops (capture, False) of (bs, fl) \<Rightarrow> (shutdown # bs, fl))"

text \<open>Every Power hold in the list is longer than the threshold, as the program measures it.\<close>

fun long_holds :: "intent_op list \<Rightarrow> bool" where
  "long_holds [] = True"
| "long_holds (RaiseShutdown press release # ops) =
     (2000 * 1000 < release - press \<and> long_holds ops)"
| "long_holds (x # ops) = long_holds ops"

text \<open>The modes that a trace configures, in order.\<close>

fun mode_changes :: "action list \<Rightarrow> stream_cfg list" where
  "mode_changes [] = []"
| "mode_changes (ConfigureViewfinder # acts) = ViewfinderCfg # mode_changes acts"
| "mode_changes (ConfigureStill # acts) = StillCfg # mode_changes acts"
| "mode_changes (a # acts) = mode_changes acts"

fun other_mode :: "stream_cfg \<Rightarrow> stream_cfg" where
  "other_mode ViewfinderCfg = StillCfg"
| "other_mode StillCfg = ViewfinderCfg"
| "other_mode NoStream = NoStream"

text \<open>Strict alternation, starting with mode \<open>m\<close>.\<close>

fun spec_alternates :: "stream_cfg \<Rightarrow> stream_cfg list \<Rightarrow> bool" where
  "spec_alternates m [] = True"
| "spec_alternates m (x # xs) = (x = m \<and> spec_alternates (other_mode m) xs)"

text \<open>What holds between two passes of the loop.\<close>

definition mode_inv :: "state \<Rightarrow> bool" where
  "mode_inv s \<longleftrightarrow>
     (config s = ViewfinderCfg \<or> config s = StillCfg) \<and>
     spec_alternates ViewfinderCfg (mode_changes (trace s)) \<and>
     mode_changes (trace s) \<noteq> [] \<and> last (mode_changes (trace s)) = config s"

text \<open>
  The timestamp \<^verbatim>\<open>YYYY-MM-DD-HH-MM-SS\<close> in the words of the specification: four digits
  of the year and two digits of each other field, and the \<^verbatim>\<open>struct tm\<close> of a calendar
  time.
\<close>

definition two_digits :: "nat \<Rightarrow> string" where
  "two_digits n = [digit (n div 10), digit (n mod 10)]"

definition four_digits :: "nat \<Rightarrow> string" where
  "four_digits n =
     [digit (n div 1000), digit (n div 100 mod 10), digit (n div 10 mod 10), digit (n mod 10)]"

definition spec_timestamp :: "nat \<Rightarrow> nat \<Rightarrow> nat \<Rightarrow> nat \<Rightarrow> nat \<Rightarrow> nat \<Rightarrow> string" where
  "spec_timestamp y mo d h mi sec =
     four_digits y @ ''-'' @ two_digits mo @ ''-'' @ two_digits d @ ''-'' @
     two_digits h @ ''-'' @ two_digits mi @ ''-'' @ two_digits sec"

definition calendar_tm :: "nat \<Rightarrow> nat \<Rightarrow> nat \<Rightarrow> nat \<Rightarrow> nat \<Rightarrow> nat \<Rightarrow> tm" where
  "calendar_tm y mo d h mi sec =
     \<lparr>tm_year = int y - 1900, tm_mon = int mo - 1, tm_mday = int d,
      tm_hour = int h, tm_min = int mi, tm_sec = int sec\<rparr>"

subsection \<open>Concrete surroundings\<close>

text \<open>
  A stick mounted at \<^verbatim>\<open>/media/usb\<close>, on 2024-01-02 at 03:04:05. A normal unmount
  fails while the stick is busy, for the first six seconds; the forced unmount fails
  too.
\<close>

definition usb_env :: os_env where
  "usb_env =
     \<lparr>proc_mounts = Some [''proc /proc proc rw 0 0'', ''/dev/sda1 /media/usb vfat rw 0 0''],
      umount = (\<lambda>p k. if k < 6 then Some ''Device or resource busy'' else None),
      umount2_force = (\<lambda>p. Some ''Device or resource busy''),
      lag = (\<lambda>k. 0),
      status_fails = (\<lambda>p. False),
      mkdir = (\<lambda>p. Created),
      localtime = calendar_tm 2024 1 2 3 4 5,
      jpeg_save = (\<lambda>p. None)\<rparr>"

text \<open>No stick: nothing is mounted under \<^verbatim>\<open>/media/\<close>, and an unmount of the empty
  path fails.\<close>

definition absent_env :: os_env where
  "absent_env =
     usb_env\<lparr>proc_mounts := Some [''proc /proc proc rw 0 0''],
       umount := (\<lambda>p k. Some ''No such file or directory''),
       umount2_force := (\<lambda>p. Some ''No such file or directory'')\<rparr>"

text \<open>A stick that cannot be written: \<^verbatim>\<open>mkdir\<close> fails.\<close>

definition readonly_env :: os_env where
  "readonly_env =
     usb_env\<lparr>proc_mounts := Some [''/dev/sda1 /media/usb vfat ro 0 0''],
       mkdir := (\<lambda>p. Failed)\<rparr>"

text \<open>A stick on which the encoder cannot write the file: \<open>jpeg_save\<close> throws.\<close>

definition unwritable_env :: os_env where
  "unwritable_env =
     usb_env\<lparr>jpeg_save := (\<lambda>p. Some (RuntimeError ''failed to open file''))\<rparr>"

text \<open>The state in which the loop starts, and the same with both intents pending.\<close>

definition viewfinder_state :: state where
  "viewfinder_state = start_camera (configure_viewfinder (open_camera (app_init {})))"

definition both_pending :: state where
  "both_pending = viewfinder_state\<lparr>doShutdown := True, takeImage := True\<rparr>"

definition still_state :: state where
  "still_state = start_camera (configure_still (teardown (stop_camera viewfinder_state)))"

text \<open>The definitions that evaluate the program on the concrete surroundings.\<close>

lemmas eval_defs =
  event_loop_def app_init_def open_camera_def configure_viewfinder_def start_camera_def
  emit_def callback_def KEY_MENU_def KEY_POWER_def KEY_DOWN_def PI_LOW_def PI_HIGH_def
  iteration_def TakeImage_def DoShutdown_def stop_camera_def teardown_def configure_still_def
  still_capture_def generate_filename_def get_mount_location_def scan_line_def
  find_char_from_def npos_succ_def substr_def is_directory_def create_directory_def
  stamp_filename_def strftime_def calendar_tm_def show_int_def pad2_def dec.simps digit_def
  usb_env_def absent_env_def readonly_env_def unwritable_env_def Let_def
  viewfinder_state_def both_pending_def still_state_def main_def

section \<open>Storage locator\<close>

lemma find_str_None_iff: "find_str pat l = None \<longleftrightarrow> \<not> sublist pat l"
  by (induction l) (auto simp: sublist_Cons_right)

lemma find_char_eq:
  "find_char c s =
     (if c \<in> set s then Some (length (takeWhile (\<lambda>x. x \<noteq> c) s)) else None)"
  by (induction s) auto

lemma scan_line_match:
  assumes "sublist ''/media/'' l"
  shows "scan_line acc l =
    substr l (find_char_from (CHR '' '') l 0)
      (find_char_from (CHR '' '') l (npos_succ (find_char_from (CHR '' '') l 0)))"
  using assms unfolding scan_line_def Let_def
  by (simp add: find_str_None_iff del: find_str.simps)

lemma substr_no_space:
  assumes "CHR '' '' \<notin> set l"
  shows "substr l (find_char_from (CHR '' '') l 0)
      (find_char_from (CHR '' '') l (npos_succ (find_char_from (CHR '' '') l 0))) = l"
proof -
  have "find_char_from (CHR '' '') l 0 = None"
    using assms by (simp add: find_char_from_def find_char_eq)
  then show ?thesis by (simp add: npos_succ_def substr_def)
qed

lemma substr_space:
  assumes "CHR '' '' \<in> set l"
  shows "substr l (find_char_from (CHR '' '') l 0)
      (find_char_from (CHR '' '') l (npos_succ (find_char_from (CHR '' '') l 0)))
    = takeWhile (\<lambda>c. c \<noteq> CHR '' '') (drop 1 (dropWhile (\<lambda>c. c \<noteq> CHR '' '') l))"
proof -
  define n where "n = length (takeWhile (\<lambda>c. c \<noteq> CHR '' '') l)"
  define r where "r = drop 1 (dropWhile (\<lambda>c. c \<noteq> CHR '' '') l)"
  have start: "find_char_from (CHR '' '') l 0 = Some n"
    using assms by (simp add: find_char_from_def find_char_eq n_def)
  have rest: "drop (Suc n) l = r"
    by (simp add: n_def r_def dropWhile_eq_drop)
  have end': "find_char_from (CHR '' '') l (Suc n) =
      (if CHR '' '' \<in> set r
       then Some (Suc n + length (takeWhile (\<lambda>c. c \<noteq> CHR '' '') r)) else None)"
    by (simp only: find_char_from_def rest find_char_eq option.map
        if_distrib[of "map_option _"] cong: if_cong)
  have tw: "CHR '' '' \<notin> set r \<Longrightarrow> takeWhile (\<lambda>c. c \<noteq> CHR '' '') r = r"
    by (auto simp: takeWhile_eq_all_conv)
  have tk: "take (length (takeWhile (\<lambda>c. c \<noteq> CHR '' '') r)) r =
      takeWhile (\<lambda>c. c \<noteq> CHR '' '') r"
    by (simp add: takeWhile_eq_take[symmetric])
  have "substr l (Some n) (find_char_from (CHR '' '') l (Suc n)) =
      takeWhile (\<lambda>c. c \<noteq> CHR '' '') r"
    unfolding end' by (simp add: substr_def npos_succ_def rest tw tk)
  then show ?thesis
    unfolding start r_def by (simp add: npos_succ_def)
qed

lemma scan_line_field:
  assumes "sublist ''/media/'' l"
  shows "scan_line acc l = mount_point_field l"
proof (cases "CHR '' '' \<in> set l")
  case True
  then show ?thesis
    by (simp only: scan_line_match[OF assms] mount_point_field_def substr_space[OF True] if_True)
next
  case False
  then show ?thesis
    by (simp only: scan_line_match[OF assms] mount_point_field_def substr_no_space[OF False]
        if_False)
qed

lemma scan_line_other: "\<not> sublist ''/media/'' l \<Longrightarrow> scan_line acc l = acc"
  unfolding scan_line_def by (simp add: find_str_None_iff del: find_str.simps)

lemma foldl_scan_line:
  "foldl scan_line acc ls =
     (if filter (sublist ''/media/'') ls = [] then acc
      else mount_point_field (last (filter (sublist ''/media/'') ls)))"
proof (induction ls arbitrary: acc)
  case Nil
  show ?case by simp
next
  case (Cons l ls)
  show ?case
  proof (cases "sublist ''/media/'' l")
    case True
    then show ?thesis by (simp add: Cons.IH scan_line_field[OF True])
  next
    case False
    then show ?thesis by (simp add: Cons.IH scan_line_other[OF False])
  qed
qed

text \<open>
  Claim C6, as the specification states it: the locator returns the mount point of an
  entry whose mount point lies under \<^verbatim>\<open>/media/\<close>. It does not hold. The source asks
  whether the text \<^verbatim>\<open>/media/\<close> occurs anywhere in the line, so a network share whose
  source path contains it is taken although it is mounted at \<^verbatim>\<open>/mnt/nas\<close>, and so is a
  mount point that merely contains \<^verbatim>\<open>/media/\<close> further down.
\<close>

theorem locator_not_under_media_root:
  "get_mount_location (Some [''//nas/media/photos /mnt/nas cifs rw 0 0'']) = ''/mnt/nas'' \<and>
   \<not> prefix ''/media/'' (get_mount_location (Some [''//nas/media/photos /mnt/nas cifs rw 0 0''])) \<and>
   get_mount_location (Some [''/dev/sda1 /home/pi/media/usb vfat rw 0 0'']) = ''/home/pi/media/usb'' \<and>
   \<not> prefix ''/media/'' (get_mount_location (Some [''/dev/sda1 /home/pi/media/usb vfat rw 0 0'']))"
  by (simp add: get_mount_location_def scan_line_def find_char_from_def npos_succ_def substr_def)

text \<open>
  Claim C6, amended: for every content of the mount table the locator returns the
  mount-point field (the text after the first space, up to the second space or the end
  of the line) of the last line that contains the text \<^verbatim>\<open>/media/\<close> anywhere; it returns the empty string when no line
  contains that text or when the table cannot be read. It is a function of the table
  alone and changes nothing.
\<close>

theorem locator_last_matching_line:
  "get_mount_location None = [] \<and>
   get_mount_location (Some ls) =
     (if filter (sublist ''/media/'') ls = [] then []
      else mount_point_field (last (filter (sublist ''/media/'') ls)))"
  unfolding get_mount_location_def by (simp only: option.case foldl_scan_line)

theorem locator_last_matching_line_witness:
  "get_mount_location
     (Some [''/dev/sda1 /media/usb vfat rw 0 0'', ''/dev/sdb1 /media/usb2 vfat rw 0 0'',
            ''proc /proc proc rw 0 0'']) = ''/media/usb2'' \<and>
   get_mount_location (Some [''proc /proc proc rw 0 0'']) = [] \<and>
   get_mount_location None = []"
  using locator_last_matching_line
    [of "[''/dev/sda1 /media/usb vfat rw 0 0'', ''/dev/sdb1 /media/usb2 vfat rw 0 0'',
          ''proc /proc proc rw 0 0'']"]
    locator_last_matching_line [of "[''proc /proc proc rw 0 0'']"]
  by (simp add: mount_point_field_def sublist_Cons_right)

section \<open>Storage unmount manager\<close>

lemma clock_at_lower: "k * SLEEP_1000MS \<le> clock_at env k"
  by (induction k) auto

lemma unmount_loop_rounds:
  "elapsed = clock_at env k \<Longrightarrow>
   \<exists>n. (\<forall>j<n. umount env loc (k + j) \<noteq> None \<and>
               clock_at env (Suc (k + j)) \<le> UMOUNT_TIMEOUT_S) \<and>
       (umount env loc (k + n) = None \<or> UMOUNT_TIMEOUT_S < clock_at env (Suc (k + n))) \<and>
       unmount_loop env loc k elapsed =
         concat (map (spec_retry_round env loc) [k..<k + n]) @ spec_last_round env loc (k + n)"
proof (induction env loc k elapsed rule: unmount_loop.induct)
  case (1 env loc k elapsed)
  show ?case
  proof (cases "umount env loc k")
    case None
    then have "unmount_loop env loc k elapsed = spec_last_round env loc k"
      by (subst unmount_loop.simps) (simp add: spec_last_round_def)
    with None show ?thesis
      by (intro exI[of _ 0]) simp
  next
    case (Some err)
    let ?t = "elapsed + SLEEP_1000MS + lag env k"
    have t: "?t = clock_at env (Suc k)" using "1.prems" by simp
    show ?thesis
    proof (cases "UMOUNT_TIMEOUT_S < ?t")
      case True
      then have "unmount_loop env loc k elapsed = spec_last_round env loc k"
        using Some "1.prems"
        by (subst unmount_loop.simps)
           (auto simp: spec_last_round_def spec_retry_round_def spec_forced_unmount_def
             split: option.splits)
      with True t show ?thesis
        by (intro exI[of _ 0]) simp
    next
      case False
      from "1.IH"[OF Some False t] obtain n where
        n1: "\<forall>j<n. umount env loc (Suc k + j) \<noteq> None \<and>
               clock_at env (Suc (Suc k + j)) \<le> UMOUNT_TIMEOUT_S"
        and n2: "umount env loc (Suc k + n) = None \<or>
               UMOUNT_TIMEOUT_S < clock_at env (Suc (Suc k + n))"
        and n3: "unmount_loop env loc (Suc k) ?t =
           concat (map (spec_retry_round env loc) [Suc k..<Suc k + n]) @
           spec_last_round env loc (Suc k + n)"
        by blast
      have step: "unmount_loop env loc k elapsed =
          spec_retry_round env loc k @ unmount_loop env loc (Suc k) ?t"
        using Some False t
        by (subst unmount_loop.simps) (simp add: spec_retry_round_def)
      have a: "\<forall>j<Suc n. umount env loc (k + j) \<noteq> None \<and>
          clock_at env (Suc (k + j)) \<le> UMOUNT_TIMEOUT_S"
      proof (intro allI impI)
        fix j assume "j < Suc n"
        show "umount env loc (k + j) \<noteq> None \<and> clock_at env (Suc (k + j)) \<le> UMOUNT_TIMEOUT_S"
        proof (cases j)
          case 0
          then show ?thesis using Some False t by simp
        next
          case (Suc j')
          then show ?thesis using n1 \<open>j < Suc n\<close> by simp
        qed
      qed
      have b: "umount env loc (k + Suc n) = None \<or>
          UMOUNT_TIMEOUT_S < clock_at env (Suc (k + Suc n))"
        using n2 by simp
      have c: "unmount_loop env loc k elapsed =
         concat (map (spec_retry_round env loc) [k..<k + Suc n]) @
         spec_last_round env loc (k + Suc n)"
      proof -
        have "[k..<k + Suc n] = k # [Suc k..<Suc k + n]"
          by (simp add: upt_conv_Cons)
        then show ?thesis unfolding step n3 by simp
      qed
      from a b c show ?thesis by blast
    qed
  qed
qed

lemma unmount_loop_shape:
  "\<exists>n\<le>5.
     (\<forall>k<n. umount env loc k \<noteq> None \<and> clock_at env (Suc k) \<le> UMOUNT_TIMEOUT_S) \<and>
     (umount env loc n = None \<or> UMOUNT_TIMEOUT_S < clock_at env (Suc n)) \<and>
     unmount_loop env loc 0 0 =
       concat (map (spec_retry_round env loc) [0..<n]) @ spec_last_round env loc n"
proof -
  from unmount_loop_rounds[of 0 env 0 loc] obtain n where
    n1: "\<forall>k<n. umount env loc k \<noteq> None \<and> clock_at env (Suc k) \<le> UMOUNT_TIMEOUT_S"
    and n2: "umount env loc n = None \<or> UMOUNT_TIMEOUT_S < clock_at env (Suc n)"
    and n3: "unmount_loop env loc 0 0 =
       concat (map (spec_retry_round env loc) [0..<n]) @ spec_last_round env loc n"
    by auto
  have "n \<le> 5"
  proof (rule ccontr)
    assume "\<not> n \<le> 5"
    then have "5 < n" by simp
    with n1 have "clock_at env (Suc 5) \<le> UMOUNT_TIMEOUT_S" by blast
    moreover have "Suc 5 * SLEEP_1000MS \<le> clock_at env (Suc 5)" by (rule clock_at_lower)
    ultimately show False by (simp add: UMOUNT_TIMEOUT_S_def SLEEP_1000MS_def)
  qed
  with n1 n2 n3 show ?thesis by blast
qed

lemma forced_at_most_once:
  "length (filter is_forced (unmount_loop env loc k elapsed)) \<le> 1"
  by (induction env loc k elapsed rule: unmount_loop.induct)
     (subst unmount_loop.simps, simp split: option.splits)

lemma nothing_after_forced:
  "unmount_loop env loc k elapsed = pre @ a # post \<Longrightarrow> is_forced a \<Longrightarrow>
   (\<forall>b\<in>set post. \<not> is_umount b \<and> \<not> is_forced b)"
proof (induction env loc k elapsed arbitrary: pre rule: unmount_loop.induct)
  case (1 env loc k elapsed)
  show ?case
  proof (cases "umount env loc k")
    case None
    with "1.prems" show ?thesis
      by (subst (asm) unmount_loop.simps) (auto simp: Cons_eq_append_conv)
  next
    case (Some err)
    show ?thesis
    proof (cases "UMOUNT_TIMEOUT_S < elapsed + SLEEP_1000MS + lag env k")
      case True
      with Some "1.prems" show ?thesis
        by (subst (asm) unmount_loop.simps)
           (auto simp: Cons_eq_append_conv split: option.splits)
    next
      case False
      with Some "1.prems" obtain pre' where
        "unmount_loop env loc (Suc k) (elapsed + SLEEP_1000MS + lag env k) = pre' @ a # post"
        by (subst (asm) unmount_loop.simps) (auto simp: Cons_eq_append_conv)
      from "1.IH"[OF Some False this "1.prems"(2)] show ?thesis .
    qed
  qed
qed

lemma retry_within_timeout:
  "unmount_loop env loc k elapsed = pre @ Now t # a # post \<Longrightarrow> is_umount a \<Longrightarrow>
   t \<le> UMOUNT_TIMEOUT_S"
proof (induction env loc k elapsed arbitrary: pre rule: unmount_loop.induct)
  case (1 env loc k elapsed)
  show ?case
  proof (cases "umount env loc k")
    case None
    with "1.prems" show ?thesis
      by (subst (asm) unmount_loop.simps) (auto simp: Cons_eq_append_conv)
  next
    case (Some err)
    show ?thesis
    proof (cases "UMOUNT_TIMEOUT_S < elapsed + SLEEP_1000MS + lag env k")
      case True
      with Some "1.prems" show ?thesis
        by (subst (asm) unmount_loop.simps)
           (auto simp: Cons_eq_append_conv split: option.splits)
    next
      case False
      from Some False "1.prems"(1) have
        "Umount loc (Some err) # Log (''Re-attempting to unmount device. Error: '' @ err) #
         SleepFor 1000 # Now (elapsed + SLEEP_1000MS + lag env k) #
         unmount_loop env loc (Suc k) (elapsed + SLEEP_1000MS + lag env k) =
         pre @ Now t # a # post"
        by (subst (asm) unmount_loop.simps) simp
      then consider
        (here) "t = elapsed + SLEEP_1000MS + lag env k"
        | (later) pre' where
          "unmount_loop env loc (Suc k) (elapsed + SLEEP_1000MS + lag env k) =
           pre' @ Now t # a # post"
        by (auto simp: Cons_eq_append_conv)
      then show ?thesis
      proof cases
        case here
        with False show ?thesis by simp
      next
        case later
        from "1.IH"[OF Some False later "1.prems"(2)] show ?thesis .
      qed
    qed
  qed
qed

lemma normal_attempts_bounded:
  "k * SLEEP_1000MS \<le> elapsed \<Longrightarrow> elapsed \<le> UMOUNT_TIMEOUT_S \<Longrightarrow>
   length (filter is_umount (unmount_loop env loc k elapsed)) \<le> 6 - k"
proof (induction env loc k elapsed rule: unmount_loop.induct)
  case (1 env loc k elapsed)
  from "1.prems" have k5: "k \<le> 5"
    by (simp add: SLEEP_1000MS_def UMOUNT_TIMEOUT_S_def)
  show ?case
  proof (cases "umount env loc k")
    case None
    with k5 show ?thesis by (subst unmount_loop.simps) simp
  next
    case (Some err)
    let ?t = "elapsed + SLEEP_1000MS + lag env k"
    show ?thesis
    proof (cases "UMOUNT_TIMEOUT_S < ?t")
      case True
      with Some k5 show ?thesis
        by (subst unmount_loop.simps) (simp split: option.splits)
    next
      case False
      have lo: "Suc k * SLEEP_1000MS \<le> ?t" using "1.prems"(1) by simp
      from False have hi: "?t \<le> UMOUNT_TIMEOUT_S" by simp
      from lo hi have "Suc k \<le> 5" by (simp add: SLEEP_1000MS_def UMOUNT_TIMEOUT_S_def)
      with "1.IH"[OF Some False lo hi] Some False show ?thesis
        by (subst unmount_loop.simps) simp
    qed
  qed
qed

text \<open>
  Claim C7. Whatever the unmount attempts answer and however long they take, the retry
  loop ends, and what it did has this shape: at most five retry rounds (a failed normal
  attempt, a sleep of one second, a reading of the clock within the 5 seconds), then a
  last round: a normal attempt that succeeds, or a failed one whose reading of the
  clock is beyond the 5 seconds, followed by the one forced attempt and an error line
  if that fails. There are at most six normal attempts and at most one forced attempt;
  nothing is attempted after the forced one; a normal attempt that follows a reading of
  the clock follows one within the timeout.
\<close>

theorem unmount_retry_policy:
  "(\<exists>n\<le>5.
      (\<forall>k<n. umount env loc k \<noteq> None \<and> clock_at env (Suc k) \<le> UMOUNT_TIMEOUT_S) \<and>
      (umount env loc n = None \<or> UMOUNT_TIMEOUT_S < clock_at env (Suc n)) \<and>
      unmount_loop env loc 0 0 =
        concat (map (spec_retry_round env loc) [0..<n]) @ spec_last_round env loc n) \<and>
   length (filter is_umount (unmount_loop env loc 0 0)) \<le> 6 \<and>
   length (filter is_forced (unmount_loop env loc 0 0)) \<le> 1 \<and>
   (\<forall>pre a post. unmount_loop env loc 0 0 = pre @ a # post \<and> is_forced a \<longrightarrow>
      (\<forall>b\<in>set post. \<not> is_umount b \<and> \<not> is_forced b)) \<and>
   (\<forall>pre t a post. unmount_loop env loc 0 0 = pre @ Now t # a # post \<and> is_umount a \<longrightarrow>
      t \<le> UMOUNT_TIMEOUT_S)"
proof -
  have "length (filter is_umount (unmount_loop env loc 0 0)) \<le> 6 - 0"
    by (rule normal_attempts_bounded) (simp_all add: UMOUNT_TIMEOUT_S_def)
  then have "length (filter is_umount (unmount_loop env loc 0 0)) \<le> 6" by simp
  with unmount_loop_shape[of env loc] forced_at_most_once[of env loc 0 0]
    nothing_after_forced[of env loc 0 0] retry_within_timeout[of env loc 0 0]
  show ?thesis by blast
qed

theorem unmount_retry_policy_witness:
  "umount usb_env ''/media/usb'' 4 \<noteq> None \<and>
   clock_at usb_env (Suc 4) \<le> UMOUNT_TIMEOUT_S \<and>
   UMOUNT_TIMEOUT_S < clock_at usb_env (Suc 5) \<and>
   length (filter is_umount (unmount_loop usb_env ''/media/usb'' 0 0)) = 6 \<and>
   length (filter is_forced (unmount_loop usb_env ''/media/usb'' 0 0)) = 1 \<and>
   \<not> is_umount (last (unmount_loop usb_env ''/media/usb'' 0 0)) \<and>
   drop 20 (unmount_loop usb_env ''/media/usb'' 0 0) =
     [Umount ''/media/usb'' (Some ''Device or resource busy''),
      Log ''Re-attempting to unmount device. Error: Device or resource busy'',
      SleepFor 1000,
      Now 6000000000,
      Log ''Attempting to force unmount device. Error: Device or resource busy'',
      Umount2Force ''/media/usb'' (Some ''Device or resource busy''),
      LogError ''ERROR Failed to unmount device'']"
proof -
  have once: "length (filter is_forced (unmount_loop usb_env ''/media/usb'' 0 0)) \<le> 1"
    using unmount_retry_policy [of usb_env "''/media/usb''"] by (elim conjE)
  have "clock_at usb_env k = k * SLEEP_1000MS" for k
    by (induction k) (simp_all add: usb_env_def)
  then have clock: "clock_at usb_env (Suc 4) = 5000000000" "clock_at usb_env (Suc 5) = 6000000000"
    by (simp_all add: SLEEP_1000MS_def)
  have tr: "unmount_loop usb_env ''/media/usb'' 0 0 =
     [Umount ''/media/usb'' (Some ''Device or resource busy''),
      Log ''Re-attempting to unmount device. Error: Device or resource busy'',
      SleepFor 1000, Now 1000000000,
      Umount ''/media/usb'' (Some ''Device or resource busy''),
      Log ''Re-attempting to unmount device. Error: Device or resource busy'',
      SleepFor 1000, Now 2000000000,
      Umount ''/media/usb'' (Some ''Device or resource busy''),
      Log ''Re-attempting to unmount device. Error: Device or resource busy'',
      SleepFor 1000, Now 3000000000,
      Umount ''/media/usb'' (Some ''Device or resource busy''),
      Log ''Re-attempting to unmount device. Error: Device or resource busy'',
      SleepFor 1000, Now 4000000000,
      Umount ''/media/usb'' (Some ''Device or resource busy''),
      Log ''Re-attempting to unmount device. Error: Device or resource busy'',
      SleepFor 1000, Now 5000000000,
      Umount ''/media/usb'' (Some ''Device or resource busy''),
      Log ''Re-attempting to unmount device. Error: Device or resource busy'',
      SleepFor 1000, Now 6000000000,
      Log ''Attempting to force unmount device. Error: Device or resource busy'',
      Umount2Force ''/media/usb'' (Some ''Device or resource busy''),
      LogError ''ERROR Failed to unmount device'']"
    by (simp add: usb_env_def unmount_loop.simps UMOUNT_TIMEOUT_S_def SLEEP_1000MS_def)
  have busy: "umount usb_env ''/media/usb'' 4 \<noteq> None"
    by (simp add: usb_env_def)
  show ?thesis
    using once unfolding tr clock by (simp add: busy UMOUNT_TIMEOUT_S_def)
qed

text \<open>
  Claim C1 says that \<open>unmount_drive\<close> returns at once when no volume is found. The
  source logs the error and goes on: there is no \<^verbatim>\<open>return\<close> after the log line (the
  same test in \<open>generate_filename\<close> returns). With nothing mounted under
  \<^verbatim>\<open>/media/\<close> it syncs, calls \<^verbatim>\<open>umount("")\<close>, sleeps and retries for six seconds
  and then calls \<^verbatim>\<open>umount2("", MNT_FORCE)\<close>.
\<close>

theorem unmount_drive_absent_volume:
  "get_mount_location (proc_mounts absent_env) = [] \<and>
   unmount_drive absent_env =
     [LogError ''ERROR Unmounting drive, cannot find mount location'', Sync,
      Umount [] (Some ''No such file or directory''),
      Log ''Re-attempting to unmount device. Error: No such file or directory'',
      SleepFor 1000, Now 1000000000,
      Umount [] (Some ''No such file or directory''),
      Log ''Re-attempting to unmount device. Error: No such file or directory'',
      SleepFor 1000, Now 2000000000,
      Umount [] (Some ''No such file or directory''),
      Log ''Re-attempting to unmount device. Error: No such file or directory'',
      SleepFor 1000, Now 3000000000,
      Umount [] (Some ''No such file or directory''),
      Log ''Re-attempting to unmount device. Error: No such file or directory'',
      SleepFor 1000, Now 4000000000,
      Umount [] (Some ''No such file or directory''),
      Log ''Re-attempting to unmount device. Error: No such file or directory'',
      SleepFor 1000, Now 5000000000,
      Umount [] (Some ''No such file or directory''),
      Log ''Re-attempting to unmount device. Error: No such file or directory'',
      SleepFor 1000, Now 6000000000,
      Log ''Attempting to force unmount device. Error: No such file or directory'',
      Umount2Force [] (Some ''No such file or directory''),
      LogError ''ERROR Failed to unmount device'']"
  by (simp add: unmount_drive_def get_mount_location_def scan_line_def absent_env_def
      usb_env_def unmount_loop.simps UMOUNT_TIMEOUT_S_def SLEEP_1000MS_def)

section \<open>Button input classifier\<close>

lemma power_events_Cons:
  "power_events env ((l, t) # es) s = power_events env es (callback env KEY_POWER l t s)"
  by (simp add: power_events_def)

lemma power_events_Nil: "power_events env [] s = s"
  by (simp add: power_events_def)

lemma unat_hold: "unat t0 \<le> unat t1 \<Longrightarrow> unat (t1 - t0) = unat t1 - unat (t0 :: 32 word)"
  by (simp add: unat_sub word_le_nat_alt)

lemma hold_threshold:
  "unat t0 \<le> unat t1 \<Longrightarrow>
   (2000 * 1000 < t1 - (t0 :: 32 word)) = (2000 * 1000 < unat t1 - unat t0)"
  by (simp add: word_less_nat_alt unat_hold)

lemma power_events_from:
  "spec_edge_sequence ((l0, t0) # es) \<Longrightarrow>
   keyPowerTimeStart s \<noteq> None \<Longrightarrow>
   (l0 = PI_LOW \<longrightarrow> keyPowerTimeStart s = Some t0) \<Longrightarrow>
   doShutdown (power_events env es s) = (doShutdown s \<or> spec_long_hold ((l0, t0) # es))"
proof (induction es arbitrary: l0 t0 s)
  case Nil
  show ?case by (simp add: power_events_Nil)
next
  case (Cons e es)
  obtain l1 t1 where e: "e = (l1, t1)" by (cases e)
  let ?s = "callback env KEY_POWER l1 t1 s"
  from Cons.prems(1) e have seq: "spec_edge_sequence ((l1, t1) # es)"
    and l0: "l0 = PI_LOW \<or> l0 = PI_HIGH" and l1: "l1 \<noteq> l0" and mono: "unat t0 \<le> unat t1"
    by simp_all
  from seq have l1': "l1 = PI_LOW \<or> l1 = PI_HIGH" by (cases es) auto
  have st: "keyPowerTimeStart ?s \<noteq> None"
    using Cons.prems(2) by (auto simp: callback_def Let_def emit_def)
  have st1: "l1 = PI_LOW \<longrightarrow> keyPowerTimeStart ?s = Some t1"
    by (simp add: callback_def Let_def)
  have flag: "doShutdown ?s =
      (doShutdown s \<or> (l0 = PI_LOW \<and> l1 = PI_HIGH \<and> 2000 * 1000 < unat t1 - unat t0))"
  proof (cases "l1 = PI_LOW")
    case True
    then show ?thesis by (simp add: callback_def Let_def PI_LOW_def PI_HIGH_def)
  next
    case False
    with l1' l1 l0 have "l1 = PI_HIGH" "l0 = PI_LOW" by auto
    with Cons.prems(3) hold_threshold[OF mono] show ?thesis
      by (simp add: callback_def Let_def emit_def PI_LOW_def PI_HIGH_def)
  qed
  from Cons.IH[OF seq st st1] flag e show ?case
    by (auto simp: power_events_Cons)
qed

lemma first_power_event:
  "keyPowerTimeStart s = None \<Longrightarrow>
   doShutdown (callback env KEY_POWER l t s) = doShutdown s \<and>
   keyPowerTimeStart (callback env KEY_POWER l t s) = Some t"
  by (simp add: callback_def Let_def emit_def)

lemma power_events_fresh:
  assumes "spec_edge_sequence es" "keyPowerTimeStart s = None" "\<not> doShutdown s"
  shows "doShutdown (power_events env es s) = spec_long_hold es"
proof (cases es)
  case Nil
  with assms(3) show ?thesis by (simp add: power_events_Nil)
next
  case (Cons e es')
  obtain l t where e: "e = (l, t)" by (cases e)
  from first_power_event[OF assms(2), of env l t] assms(3)
  have f: "\<not> doShutdown (callback env KEY_POWER l t s)"
    and k: "keyPowerTimeStart (callback env KEY_POWER l t s) = Some t" by simp_all
  have "doShutdown (power_events env es' (callback env KEY_POWER l t s)) =
      (doShutdown (callback env KEY_POWER l t s) \<or> spec_long_hold ((l, t) # es'))"
  proof (rule power_events_from)
    show "spec_edge_sequence ((l, t) # es')" using assms(1) Cons e by simp
    show "keyPowerTimeStart (callback env KEY_POWER l t s) \<noteq> None" using k by simp
    show "l = PI_LOW \<longrightarrow> keyPowerTimeStart (callback env KEY_POWER l t s) = Some t"
      by (rule impI) (rule k)
  qed
  with f Cons e show ?thesis by (simp add: power_events_Cons)
qed

lemma press_resets_start:
  "keyPowerTimeStart (callback env KEY_POWER PI_LOW t s) = Some t \<and>
   doShutdown (callback env KEY_POWER PI_LOW t s) = doShutdown s"
  by (simp add: callback_def Let_def)

text \<open>
  Claim C2. Take any sequence of edge events of the Power line (levels that alternate
  between low and high, timestamps that do not decrease), delivered to a fresh
  classifier. Then ShutdownRequested is raised if and only if some asserted interval,
  a press directly followed by its release, lasts more than 2000 ms; intervals of
  2000 ms or less never raise it, however many there are. A press always sets the
  tracked start time to its own tick and leaves the flag as it is, so the release is
  compared with the most recent press only.
\<close>

theorem shutdown_iff_long_hold:
  assumes "spec_edge_sequence es" "keyPowerTimeStart s = None" "\<not> doShutdown s"
  shows "doShutdown (power_events env es s) = spec_long_hold es \<and>
    keyPowerTimeStart (callback env KEY_POWER PI_LOW t s') = Some t \<and>
    doShutdown (callback env KEY_POWER PI_LOW t s') = doShutdown s'"
  using power_events_fresh[OF assms] press_resets_start[of env t s'] by simp

theorem shutdown_iff_long_hold_witness:
  "spec_edge_sequence [(0, 0), (1, 500000), (0, 1000000), (1, 3000000)] \<and>
   keyPowerTimeStart (app_init {}) = None \<and> \<not> doShutdown (app_init {}) \<and>
   \<not> spec_long_hold [(0, 0), (1, 500000), (0, 1000000), (1, 3000000)] \<and>
   \<not> doShutdown (power_events usb_env [(0, 0), (1, 500000), (0, 1000000), (1, 3000000)]
        (app_init {})) \<and>
   spec_edge_sequence [(0, 0), (1, 500000), (0, 1000000), (1, 3000001)] \<and>
   spec_long_hold [(0, 0), (1, 500000), (0, 1000000), (1, 3000001)] \<and>
   doShutdown (power_events usb_env [(0, 0), (1, 500000), (0, 1000000), (1, 3000001)]
        (app_init {}))"
  using shutdown_iff_long_hold
      [of "[(0, 0), (1, 500000), (0, 1000000), (1, 3000000)]" "app_init {}" usb_env]
    shutdown_iff_long_hold
      [of "[(0, 0), (1, 500000), (0, 1000000), (1, 3000001)]" "app_init {}" usb_env]
  by (simp add: app_init_def PI_LOW_def PI_HIGH_def)

lemma wrap_hold:
  assumes "T0 \<le> T1" "T1 - T0 < 2 ^ 32"
  shows "unat ((of_nat T1 :: 32 word) - of_nat T0) = T1 - T0"
proof -
  have "(of_nat T1 :: 32 word) - of_nat T0 = of_nat (T1 - T0)"
    using assms(1) by simp
  then show ?thesis using assms(2) by (simp add: unat_of_nat)
qed

text \<open>
  Claim C10. Let the button be pressed at \<open>T0\<close> and released at \<open>T1\<close> microseconds
  since boot, so that the alerts carry the ticks \<open>T0 mod 2^32\<close> and \<open>T1 mod 2^32\<close>. If
  the hold is shorter than \<open>2^32\<close> microseconds, then the 32-bit difference of the
  ticks is the hold, also when the counter has wrapped in between, and the release
  raises ShutdownRequested exactly when the hold is longer than 2000 ms.
\<close>

theorem hold_duration_wraps:
  assumes "T0 \<le> T1" "T1 - T0 < 2 ^ 32"
  shows "unat ((of_nat T1 :: 32 word) - of_nat T0) = (T1 - T0) mod 2 ^ 32 \<and>
    unat ((of_nat T1 :: 32 word) - of_nat T0) = T1 - T0 \<and>
    doShutdown (callback env KEY_POWER PI_HIGH (of_nat T1)
       (callback env KEY_POWER PI_LOW (of_nat T0) s))
      = (doShutdown s \<or> 2000 * 1000 < T1 - T0)"
proof -
  have "(2000 * 1000 < (of_nat T1 :: 32 word) - of_nat T0) = (2000 * 1000 < T1 - T0)"
    by (simp add: word_less_nat_alt wrap_hold[OF assms])
  then show ?thesis using assms
    by (simp add: wrap_hold callback_def Let_def emit_def PI_LOW_def PI_HIGH_def)
qed

theorem hold_duration_wraps_witness:
  "(4294000000 :: nat) \<le> 4297000000 \<and> (4297000000 :: nat) - 4294000000 < 2 ^ 32 \<and>
   (of_nat 4297000000 :: 32 word) < of_nat 4294000000 \<and>
   unat ((of_nat 4297000000 :: 32 word) - of_nat 4294000000) = 3000000 \<and>
   doShutdown (callback usb_env KEY_POWER PI_HIGH (of_nat 4297000000)
       (callback usb_env KEY_POWER PI_LOW (of_nat 4294000000) (app_init {}))) \<and>
   \<not> doShutdown (callback usb_env KEY_POWER PI_HIGH (of_nat 4296000000)
       (callback usb_env KEY_POWER PI_LOW (of_nat 4294000000) (app_init {})))"
  using hold_duration_wraps [of 4294000000 4297000000 usb_env "app_init {}"]
    hold_duration_wraps [of 4294000000 4296000000 usb_env "app_init {}"]
  by (simp add: app_init_def)

section \<open>Intent flags\<close>

lemma raise_capture_flags:
  "takeImage (callback env KEY_MENU PI_LOW tick s) = True \<and>
   doShutdown (callback env KEY_MENU PI_LOW tick s) = doShutdown s"
  by (simp add: callback_def KEY_MENU_def KEY_POWER_def emit_def)

lemma raise_shutdown_flags:
  "2000 * 1000 < release - press \<Longrightarrow>
   doShutdown (callback env KEY_POWER PI_HIGH release
      (callback env KEY_POWER PI_LOW press s)) = True \<and>
   takeImage (callback env KEY_POWER PI_HIGH release
      (callback env KEY_POWER PI_LOW press s)) = takeImage s"
  by (simp add: callback_def Let_def emit_def PI_LOW_def PI_HIGH_def)

lemma intent_ops_latches:
  "long_holds ops \<Longrightarrow>
   (case intent_ops env ops s of (bs, s') \<Rightarrow> (bs, takeImage s', doShutdown s')) =
   spec_latches ops (takeImage s, doShutdown s)"
proof (induction ops arbitrary: s)
  case Nil
  show ?case by simp
next
  case (Cons op ops)
  show ?case
  proof (cases op)
    case (RaiseCapture tick)
    with Cons show ?thesis by (simp add: raise_capture_flags)
  next
    case (RaiseShutdown press release)
    with Cons show ?thesis by (simp add: raise_shutdown_flags)
  next
    case ConsumeCapture
    with Cons.prems have "long_holds ops" by simp
    from Cons.IH[OF this, of "snd (TakeImage s)"] ConsumeCapture show ?thesis
      by (auto simp: TakeImage_def split: prod.splits)
  next
    case ConsumeShutdown
    with Cons.prems have "long_holds ops" by simp
    from Cons.IH[OF this, of "snd (DoShutdown s)"] ConsumeShutdown show ?thesis
      by (auto simp: DoShutdown_def split: prod.splits)
  qed
qed

lemma clear_on_read:
  "fst (TakeImage s) = takeImage s \<and> \<not> takeImage (snd (TakeImage s)) \<and>
   \<not> fst (TakeImage (snd (TakeImage s))) \<and>
   fst (DoShutdown s) = doShutdown s \<and> \<not> doShutdown (snd (DoShutdown s)) \<and>
   \<not> fst (DoShutdown (snd (DoShutdown s)))"
  by (simp add: TakeImage_def DoShutdown_def)

text \<open>
  Claim C4. Under every interleaving of raises and consumptions the two flags of the
  program behave as two boolean latches: what every consumption returns, and the flags
  left at the end, are those of the latches. In particular a raise sets its flag;
  several raises before a consumption leave one pending intent; a consumption returns
  the flag and clears it, so a second consumption in a row returns false. (A raise and
  a consumption are each taken as one step; the program takes no lock.)
\<close>

theorem intent_flags_are_latches:
  "(long_holds ops \<longrightarrow>
      (case intent_ops env ops s of (bs, s') \<Rightarrow> (bs, takeImage s', doShutdown s')) =
      spec_latches ops (takeImage s, doShutdown s)) \<and>
   takeImage (callback env KEY_MENU PI_LOW tick s) \<and>
   (2000 * 1000 < release - press \<longrightarrow>
      doShutdown (callback env KEY_POWER PI_HIGH release
        (callback env KEY_POWER PI_LOW press s))) \<and>
   fst (TakeImage s) = takeImage s \<and> \<not> takeImage (snd (TakeImage s)) \<and>
   \<not> fst (TakeImage (snd (TakeImage s))) \<and>
   fst (DoShutdown s) = doShutdown s \<and> \<not> doShutdown (snd (DoShutdown s)) \<and>
   \<not> fst (DoShutdown (snd (DoShutdown s)))"
  using intent_ops_latches[of ops env s] raise_capture_flags[of env tick s]
    raise_shutdown_flags[of release press env s] clear_on_read[of s]
  by simp

theorem intent_flags_are_latches_witness:
  "long_holds [RaiseCapture 10, RaiseCapture 20, RaiseCapture 30, ConsumeCapture,
     ConsumeCapture, RaiseShutdown 0 2500000, RaiseShutdown 4294000000 2000000,
     ConsumeShutdown, ConsumeShutdown, RaiseCapture 40] \<and>
   (2000 * 1000 :: 32 word) < 2500000 - 0 \<and>
   (case intent_ops usb_env
      [RaiseCapture 10, RaiseCapture 20, RaiseCapture 30, ConsumeCapture,
       ConsumeCapture, RaiseShutdown 0 2500000, RaiseShutdown 4294000000 2000000,
       ConsumeShutdown, ConsumeShutdown, RaiseCapture 40] (app_init {})
    of (bs, s') \<Rightarrow> (bs, takeImage s', doShutdown s')) =
     ([True, False, True, False], True, False) \<and>
   doShutdown (callback usb_env KEY_POWER PI_HIGH 2500000
      (callback usb_env KEY_POWER PI_LOW 0 (app_init {})))"
  using intent_flags_are_latches
    [where ops = "[RaiseCapture 10, RaiseCapture 20, RaiseCapture 30, ConsumeCapture,
          ConsumeCapture, RaiseShutdown 0 2500000, RaiseShutdown 4294000000 2000000,
          ConsumeShutdown, ConsumeShutdown, RaiseCapture 40]"
       and env = usb_env and s = "app_init {}" and tick = 10 and press = 0
       and release = 2500000]
  by (simp add: app_init_def)

section \<open>Filename generator\<close>

lemma dec_one: "n < 10 \<Longrightarrow> dec n = [digit n]"
  by (subst dec.simps) simp

lemma dec_two: "10 \<le> n \<Longrightarrow> n < 100 \<Longrightarrow> dec n = two_digits n"
  by (subst dec.simps) (simp add: dec_one two_digits_def)

lemma dec_three:
  "100 \<le> n \<Longrightarrow> n < 1000 \<Longrightarrow>
   dec n = [digit (n div 100), digit (n div 10 mod 10), digit (n mod 10)]"
  by (subst dec.simps) (simp add: dec_two two_digits_def div_mult2_eq[symmetric])

lemma dec_four: "1000 \<le> n \<Longrightarrow> n < 10000 \<Longrightarrow> dec n = four_digits n"
  by (subst dec.simps) (simp add: dec_three four_digits_def div_mult2_eq[symmetric])

lemma pad2_two_digits: "n < 100 \<Longrightarrow> pad2 (int n) = two_digits n"
proof (cases "n < 10")
  case True
  then show ?thesis by (simp add: pad2_def show_int_def dec_one two_digits_def digit_def)
next
  case False
  assume "n < 100"
  with False show ?thesis by (simp add: pad2_def show_int_def dec_two)
qed

lemma strftime_calendar:
  assumes "1000 \<le> y" "y \<le> 9999" "1 \<le> mo" "mo \<le> 12" "d \<le> 31" "h \<le> 23" "mi \<le> 59"
    "sec \<le> 60"
  shows "strftime (calendar_tm y mo d h mi sec) = spec_timestamp y mo d h mi sec"
proof -
  have y: "show_int (int y) = four_digits y"
    using assms(1,2) by (simp add: show_int_def dec_four)
  show ?thesis
    using assms
    by (simp add: strftime_def calendar_tm_def spec_timestamp_def y pad2_two_digits)
qed

lemma length_spec_timestamp: "length (spec_timestamp y mo d h mi sec) = 19"
  by (simp add: spec_timestamp_def four_digits_def two_digits_def)

lemma generate_filename_path:
  assumes "get_mount_location (proc_mounts env) = vol" "vol \<noteq> []"
    and "localtime env = calendar_tm y mo d h mi sec"
    and "1000 \<le> y" "y \<le> 9999" "1 \<le> mo" "mo \<le> 12" "d \<le> 31" "h \<le> 23" "mi \<le> 59"
      "sec \<le> 60"
    and "\<not> status_fails env (vol @ ''/micropiscope'')"
    and "vol @ ''/micropiscope'' \<in> dirs s \<or> mkdir env (vol @ ''/micropiscope'') = Created"
  shows "fst (generate_filename env s) =
      Inr (vol @ ''/micropiscope/'' @ spec_timestamp y mo d h mi sec @ ''.jpg'') \<and>
    dirs (snd (generate_filename env s)) = insert (vol @ ''/micropiscope'') (dirs s)"
proof -
  have st: "strftime (localtime env) = spec_timestamp y mo d h mi sec"
    unfolding assms(3) using assms(4-11) by (rule strftime_calendar)
  have tk: "take 127 (spec_timestamp y mo d h mi sec @ ''.jpg'') =
      spec_timestamp y mo d h mi sec @ ''.jpg''"
    by (simp add: length_spec_timestamp)
  have stamp: "stamp_filename env p s' =
      (Inr (p @ ''/'' @ spec_timestamp y mo d h mi sec @ ''.jpg''),
       emit [Print (''Saving image at '' @ p @ ''/'' @
         spec_timestamp y mo d h mi sec @ ''.jpg'')] s')"
    for p s'
    unfolding stamp_filename_def Let_def st tk by (rule refl)
  let ?p = "vol @ ''/micropiscope''"
  show ?thesis
  proof (cases "?p \<in> dirs s")
    case True
    then have "generate_filename env s = stamp_filename env ?p s"
      using assms(1,2,12) by (simp add: generate_filename_def Let_def is_directory_def)
    with True show ?thesis by (auto simp: stamp emit_def)
  next
    case False
    with assms(13) have "mkdir env ?p = Created" by simp
    with False have "generate_filename env s =
        stamp_filename env ?p (emit [CreateDirectory ?p] (s\<lparr>dirs := insert ?p (dirs s)\<rparr>))"
      using assms(1,2,12)
      by (simp add: generate_filename_def Let_def is_directory_def create_directory_def)
    then show ?thesis by (simp add: stamp emit_def)
  qed
qed

text \<open>
  Claim C8. Let the locator find the volume \<open>vol\<close>, let the clock read the calendar
  time \<open>y-mo-d h:mi:sec\<close> (a year of four digits), and let the subdirectory
  \<^verbatim>\<open>micropiscope\<close> be there or be made when asked. Then filename generation returns
  exactly \<^verbatim>\<open><vol>/micropiscope/YYYY-MM-DD-HH-MM-SS.jpg\<close>, a function of the volume
  path and the clock reading alone, and the subdirectory exists afterwards.
\<close>

theorem generate_filename_format:
  assumes "get_mount_location (proc_mounts env) = vol" "vol \<noteq> []"
    and "localtime env = calendar_tm y mo d h mi sec"
    and "1000 \<le> y" "y \<le> 9999" "1 \<le> mo" "mo \<le> 12" "d \<le> 31" "h \<le> 23" "mi \<le> 59"
      "sec \<le> 60"
    and "\<not> status_fails env (vol @ ''/micropiscope'')"
    and "vol @ ''/micropiscope'' \<in> dirs s \<or> mkdir env (vol @ ''/micropiscope'') = Created"
  shows "fst (generate_filename env s) =
      Inr (vol @ ''/micropiscope/'' @ spec_timestamp y mo d h mi sec @ ''.jpg'') \<and>
    dirs (snd (generate_filename env s)) = insert (vol @ ''/micropiscope'') (dirs s)"
  using assms by (rule generate_filename_path)

theorem generate_filename_format_witness:
  "get_mount_location (proc_mounts usb_env) = ''/media/usb'' \<and>
   localtime usb_env = calendar_tm 2024 1 2 3 4 5 \<and>
   \<not> status_fails usb_env ''/media/usb/micropiscope'' \<and>
   ''/media/usb/micropiscope'' \<notin> dirs (app_init {}) \<and>
   mkdir usb_env ''/media/usb/micropiscope'' = Created \<and>
   fst (generate_filename usb_env (app_init {})) =
     Inr ''/media/usb/micropiscope/2024-01-02-03-04-05.jpg'' \<and>
   dirs (snd (generate_filename usb_env (app_init {}))) = {''/media/usb/micropiscope''}"
proof -
  have vol: "get_mount_location (proc_mounts usb_env) = ''/media/usb''"
    by (simp add: usb_env_def get_mount_location_def scan_line_def find_char_from_def
        npos_succ_def substr_def)
  have env: "localtime usb_env = calendar_tm 2024 1 2 3 4 5"
    "\<not> status_fails usb_env (''/media/usb'' @ ''/micropiscope'')"
    "mkdir usb_env (''/media/usb'' @ ''/micropiscope'') = Created"
    by (simp_all add: usb_env_def)
  have "fst (generate_filename usb_env (app_init {})) =
      Inr (''/media/usb'' @ ''/micropiscope/'' @ spec_timestamp 2024 1 2 3 4 5 @ ''.jpg'') \<and>
    dirs (snd (generate_filename usb_env (app_init {}))) =
      insert (''/media/usb'' @ ''/micropiscope'') (dirs (app_init {}))"
    by (rule generate_filename_format [OF vol _ env(1) _ _ _ _ _ _ _ _ env(2)])
       (simp_all add: usb_env_def)
  then show ?thesis
    using vol env
    by (simp add: spec_timestamp_def four_digits_def two_digits_def digit_def app_init_def)
qed

section \<open>Event loop\<close>

subsection \<open>What a step leaves alone\<close>

lemma mode_changes_append: "mode_changes (xs @ ys) = mode_changes xs @ mode_changes ys"
  by (induction xs rule: mode_changes.induct) simp_all

lemma mode_changes_unmount_loop: "mode_changes (unmount_loop env loc k elapsed) = []"
  by (induction env loc k elapsed rule: unmount_loop.induct)
     (subst unmount_loop.simps, simp split: option.splits)

lemma mode_changes_unmount_drive: "mode_changes (unmount_drive env) = []"
  by (simp add: unmount_drive_def Let_def mode_changes_append mode_changes_unmount_loop)

lemma callback_config:
  "config (callback env gpio level tick s) = config s \<and>
   mode_changes (trace (callback env gpio level tick s)) = mode_changes (trace s)"
  by (simp add: callback_def Let_def emit_def mode_changes_append mode_changes_unmount_drive)

lemma callback_keeps_shutdown: "doShutdown s \<Longrightarrow> doShutdown (callback env gpio level tick s)"
  by (simp add: callback_def Let_def emit_def)

lemma generate_filename_frame:
  "generate_filename env s = (r, s') \<Longrightarrow>
   config s' = config s \<and> running s' = running s \<and> doShutdown s' = doShutdown s \<and>
   takeImage s' = takeImage s \<and>
   (\<exists>mid. trace s' = trace s @ mid \<and> mode_changes mid = [] \<and> (\<forall>p. JpegSave p \<notin> set mid))"
  by (auto simp: generate_filename_def Let_def is_directory_def create_directory_def
      stamp_filename_def emit_def
      split: if_splits sum.splits bool.splits mkdir_outcome.splits prod.splits)

lemma generate_filename_dirs:
  "dirs s1 = dirs s \<Longrightarrow> fst (generate_filename env s1) = fst (generate_filename env s)"
  by (auto simp: generate_filename_def Let_def is_directory_def create_directory_def
      stamp_filename_def emit_def
      split: if_splits sum.splits bool.splits mkdir_outcome.splits prod.splits)

subsection \<open>The modes alternate\<close>

lemma alternates_snoc:
  "spec_alternates m xs \<Longrightarrow> xs \<noteq> [] \<Longrightarrow> m \<noteq> NoStream \<Longrightarrow>
   spec_alternates m (xs @ [other_mode (last xs)])"
proof (induction xs arbitrary: m)
  case Nil
  then show ?case by simp
next
  case (Cons x xs)
  then show ?case by (cases m; cases xs) auto
qed

lemma callback_mode_inv: "mode_inv s \<Longrightarrow> mode_inv (callback env gpio level tick s)"
  by (simp add: mode_inv_def callback_config)

lemma still_capture_modes:
  assumes "mode_inv s" "config s = StillCfg"
  shows "case still_capture env s of
           Continue s' \<Rightarrow> mode_inv s'
         | Returned s' \<Rightarrow> spec_alternates ViewfinderCfg (mode_changes (trace s'))
         | Thrown e s' \<Rightarrow> spec_alternates ViewfinderCfg (mode_changes (trace s'))"
proof -
  let ?s1 = "emit [Log ''Still capture image received''] (stop_camera s)"
  obtain r s2 where g: "generate_filename env ?s1 = (r, s2)"
    by (cases "generate_filename env ?s1")
  from generate_filename_frame[OF g]
  have c2: "config s2 = StillCfg" and m2: "mode_changes (trace s2) = mode_changes (trace s)"
    using assms(2) by (auto simp: emit_def stop_camera_def mode_changes_append)
  from assms m2 have alt: "spec_alternates ViewfinderCfg (mode_changes (trace s2))"
    and ne: "mode_changes (trace s2) \<noteq> []" and la: "last (mode_changes (trace s2)) = StillCfg"
    by (simp_all add: mode_inv_def)
  from alternates_snoc[OF alt ne] la
  have snoc: "spec_alternates ViewfinderCfg (mode_changes (trace s2) @ [ViewfinderCfg])"
    by simp
  have restored: "mode_inv (start_camera (configure_viewfinder (teardown (emit acts s2))))"
    if "mode_changes acts = []" for acts
    using snoc that
    by (simp add: mode_inv_def start_camera_def configure_viewfinder_def teardown_def emit_def
        mode_changes_append)
  show ?thesis
  proof (cases r)
    case (Inl e)
    with g alt show ?thesis by (simp add: still_capture_def Let_def)
  next
    case (Inr filename)
    show ?thesis
    proof (cases "filename = []")
      case True
      with g Inr restored[of "[LogError ''Cannot save image, no mounted drive!'']"]
      show ?thesis
        by (simp add: still_capture_def Let_def)
    next
      case False
      with g Inr restored[of "[JpegSave filename]"] alt show ?thesis
        by (simp add: still_capture_def Let_def emit_def mode_changes_append
            split: option.splits)
    qed
  qed
qed

lemma iteration_modes:
  assumes "mode_inv s"
  shows "case iteration env msg s of
           Continue s' \<Rightarrow> mode_inv s'
         | Returned s' \<Rightarrow> spec_alternates ViewfinderCfg (mode_changes (trace s'))
         | Thrown e s' \<Rightarrow> spec_alternates ViewfinderCfg (mode_changes (trace s'))"
proof -
  from assms have alt: "spec_alternates ViewfinderCfg (mode_changes (trace s))"
    and ne: "mode_changes (trace s) \<noteq> []" and la: "last (mode_changes (trace s)) = config s"
    and cfg: "config s = ViewfinderCfg \<or> config s = StillCfg"
    by (simp_all add: mode_inv_def)
  consider (timeout) "msg = Timeout" | (quit) "msg = Quit" | (other) "msg = OtherMsg"
    | (view) "msg = RequestComplete" "config s = ViewfinderCfg"
    | (still) "msg = RequestComplete" "config s = StillCfg"
    using cfg by (cases msg) auto
  then show ?thesis
  proof cases
    case timeout
    with assms show ?thesis
      by (simp add: iteration_def mode_inv_def start_camera_def stop_camera_def emit_def
          mode_changes_append)
  next
    case quit
    with alt show ?thesis by (simp add: iteration_def)
  next
    case other
    with alt show ?thesis by (simp add: iteration_def)
  next
    case view
    from alternates_snoc[OF alt ne] la view
    have "spec_alternates ViewfinderCfg (mode_changes (trace s) @ [StillCfg])" by simp
    with view assms show ?thesis
      by (simp add: iteration_def TakeImage_def DoShutdown_def mode_inv_def start_camera_def
          stop_camera_def teardown_def configure_still_def emit_def mode_changes_append)
  next
    case still
    with still_capture_modes[OF assms still(2), of env] show ?thesis
      by (simp add: iteration_def)
  qed
qed

lemma run_modes:
  "mode_inv s \<Longrightarrow>
   (case run es s of
      Continue s' \<Rightarrow> mode_inv s'
    | Returned s' \<Rightarrow> spec_alternates ViewfinderCfg (mode_changes (trace s'))
    | Thrown e s' \<Rightarrow> spec_alternates ViewfinderCfg (mode_changes (trace s')))"
proof (induction es s rule: run.induct)
  case (1 s)
  then show ?case by simp
next
  case (2 env gpio level tick es s)
  then show ?case by (simp add: callback_mode_inv)
next
  case (3 env msg es s)
  from iteration_modes[OF "3.prems", of env msg] "3.IH" show ?case
    by (cases "iteration env msg s") simp_all
qed

lemma event_loop_alternates:
  "spec_alternates ViewfinderCfg
     (mode_changes (trace (state_of (event_loop es (app_init ds)))))"
proof -
  have "mode_inv (start_camera (configure_viewfinder (open_camera (app_init ds))))"
    by (simp add: mode_inv_def start_camera_def configure_viewfinder_def open_camera_def
        app_init_def emit_def)
  from run_modes[OF this, of es] show ?thesis
    by (cases "run es (start_camera (configure_viewfinder (open_camera (app_init ds))))")
       (simp_all add: event_loop_def mode_inv_def)
qed

subsection \<open>Single steps\<close>

lemma still_entered_by_capture:
  assumes "config s \<noteq> StillCfg" "config (state_of (run [(env, ev)] s)) = StillCfg"
  shows "ev = Msg RequestComplete \<and> config s = ViewfinderCfg \<and> takeImage s \<and>
     \<not> takeImage (state_of (run [(env, ev)] s)) \<and>
     trace (state_of (run [(env, ev)] s)) =
       trace s @ [StopCamera, Teardown, ConfigureStill, StartCamera]"
proof (cases ev)
  case (Gpio gpio level tick)
  with assms show ?thesis by (simp add: callback_config)
next
  case (Msg msg)
  show ?thesis
  proof (cases "config s")
    case NoStream
    with assms Msg show ?thesis
      by (cases msg) (simp_all add: iteration_def start_camera_def stop_camera_def emit_def)
  next
    case ViewfinderCfg
    with assms Msg show ?thesis
      by (cases msg)
         (auto simp: iteration_def start_camera_def stop_camera_def emit_def TakeImage_def
           DoShutdown_def teardown_def configure_still_def split: if_splits)
  next
    case StillCfg
    with assms show ?thesis by simp
  qed
qed

lemma still_no_destination:
  assumes "config s = StillCfg" "fst (generate_filename env s) = Inr []"
  shows "\<exists>s' mid. iteration env RequestComplete s = Continue s' \<and>
     config s' = ViewfinderCfg \<and> running s' \<and>
     doShutdown s' = doShutdown s \<and> takeImage s' = takeImage s \<and>
     (\<forall>p. JpegSave p \<notin> set mid) \<and>
     trace s' = trace s @ StopCamera # mid @
       [LogError ''Cannot save image, no mounted drive!'', Teardown, ConfigureViewfinder,
        StartCamera]"
proof -
  let ?s1 = "emit [Log ''Still capture image received''] (stop_camera s)"
  obtain r s2 where g: "generate_filename env ?s1 = (r, s2)"
    by (cases "generate_filename env ?s1")
  have "fst (generate_filename env ?s1) = fst (generate_filename env s)"
    by (rule generate_filename_dirs) (simp add: emit_def stop_camera_def)
  with g assms(2) have r: "r = Inr []" by simp
  from generate_filename_frame[OF g] obtain mid where
    s2: "config s2 = config ?s1" "running s2 = running ?s1" "doShutdown s2 = doShutdown ?s1"
      "takeImage s2 = takeImage ?s1" "trace s2 = trace ?s1 @ mid"
      "\<forall>p. JpegSave p \<notin> set mid" by blast
  have it: "iteration env RequestComplete s =
      Continue (start_camera (configure_viewfinder (teardown
              (emit [LogError ''Cannot save image, no mounted drive!''] s2))))"
    using assms(1) g r by (simp add: iteration_def still_capture_def Let_def)
  have tr: "trace s2 = trace s @ StopCamera # (Log ''Still capture image received'' # mid)"
    and fl: "doShutdown s2 = doShutdown s" "takeImage s2 = takeImage s"
    using s2 by (simp_all add: emit_def stop_camera_def)
  let ?s' = "start_camera (configure_viewfinder (teardown
              (emit [LogError ''Cannot save image, no mounted drive!''] s2)))"
  let ?mid = "Log ''Still capture image received'' # mid"
  have "config ?s' = ViewfinderCfg" "running ?s'" "doShutdown ?s' = doShutdown s"
    "takeImage ?s' = takeImage s" "\<forall>p. JpegSave p \<notin> set ?mid"
    "trace ?s' = trace s @ StopCamera # ?mid @
       [LogError ''Cannot save image, no mounted drive!'', Teardown, ConfigureViewfinder,
        StartCamera]"
    by (simp_all add: tr fl s2(6) start_camera_def configure_viewfinder_def teardown_def
        emit_def)
  with it show ?thesis by blast
qed

lemma still_encoded:
  assumes "config s = StillCfg" "fst (generate_filename env s) = Inr f" "f \<noteq> []"
    "jpeg_save env f = None"
  shows "\<exists>s' mid. iteration env RequestComplete s = Continue s' \<and>
     config s' = ViewfinderCfg \<and> running s' \<and>
     doShutdown s' = doShutdown s \<and> takeImage s' = takeImage s \<and>
     trace s' = trace s @ StopCamera # mid @
       [JpegSave f, Teardown, ConfigureViewfinder, StartCamera]"
proof -
  let ?s1 = "emit [Log ''Still capture image received''] (stop_camera s)"
  obtain r s2 where g: "generate_filename env ?s1 = (r, s2)"
    by (cases "generate_filename env ?s1")
  have "fst (generate_filename env ?s1) = fst (generate_filename env s)"
    by (rule generate_filename_dirs) (simp add: emit_def stop_camera_def)
  with g assms(2) have r: "r = Inr f" by simp
  from generate_filename_frame[OF g] obtain mid where
    s2: "config s2 = config ?s1" "running s2 = running ?s1" "doShutdown s2 = doShutdown ?s1"
      "takeImage s2 = takeImage ?s1" "trace s2 = trace ?s1 @ mid" by blast
  have it: "iteration env RequestComplete s =
      Continue (start_camera (configure_viewfinder (teardown (emit [JpegSave f] s2))))"
    using assms(1,3,4) g r by (simp add: iteration_def still_capture_def Let_def)
  have tr: "trace s2 = trace s @ StopCamera # (Log ''Still capture image received'' # mid)"
    and fl: "doShutdown s2 = doShutdown s" "takeImage s2 = takeImage s"
    using s2 by (simp_all add: emit_def stop_camera_def)
  let ?s' = "start_camera (configure_viewfinder (teardown (emit [JpegSave f] s2)))"
  let ?mid = "Log ''Still capture image received'' # mid"
  have "config ?s' = ViewfinderCfg" "running ?s'" "doShutdown ?s' = doShutdown s"
    "takeImage ?s' = takeImage s"
    "trace ?s' = trace s @ StopCamera # ?mid @
       [JpegSave f, Teardown, ConfigureViewfinder, StartCamera]"
    by (simp_all add: tr fl start_camera_def configure_viewfinder_def teardown_def emit_def)
  with it show ?thesis by blast
qed

lemma still_encoder_throws:
  assumes "config s = StillCfg" "fst (generate_filename env s) = Inr f" "f \<noteq> []"
    "jpeg_save env f = Some e"
  shows "\<exists>s'. iteration env RequestComplete s = Thrown e s' \<and>
     config s' = StillCfg \<and> \<not> running s' \<and> mode_changes (trace s') = mode_changes (trace s)"
proof -
  let ?s1 = "emit [Log ''Still capture image received''] (stop_camera s)"
  obtain r s2 where g: "generate_filename env ?s1 = (r, s2)"
    by (cases "generate_filename env ?s1")
  have "fst (generate_filename env ?s1) = fst (generate_filename env s)"
    by (rule generate_filename_dirs) (simp add: emit_def stop_camera_def)
  with g assms(2) have r: "r = Inr f" by simp
  from generate_filename_frame[OF g] obtain mid where
    s2: "config s2 = config ?s1" "running s2 = running ?s1" "trace s2 = trace ?s1 @ mid"
      "mode_changes mid = []" by blast
  have it: "iteration env RequestComplete s = Thrown e (emit [JpegSave f] s2)"
    using assms(1,3,4) g r by (simp add: iteration_def still_capture_def Let_def)
  have "config (emit [JpegSave f] s2) = StillCfg" "\<not> running (emit [JpegSave f] s2)"
    "mode_changes (trace (emit [JpegSave f] s2)) = mode_changes (trace s)"
    using s2 assms(1) by (simp_all add: emit_def stop_camera_def mode_changes_append)
  with it show ?thesis by blast
qed

lemma capture_first:
  assumes "config s = ViewfinderCfg" "takeImage s"
  shows "\<exists>s'. iteration env RequestComplete s = Continue s' \<and> config s' = StillCfg \<and>
     \<not> takeImage s' \<and> doShutdown s' = doShutdown s \<and> dirs s' = dirs s \<and>
     trace s' = trace s @ [StopCamera, Teardown, ConfigureStill, StartCamera]"
  using assms
  by (simp add: iteration_def TakeImage_def start_camera_def configure_still_def teardown_def
      stop_camera_def emit_def)

lemma shutdown_consumed:
  assumes "config s = ViewfinderCfg" "\<not> takeImage s" "doShutdown s"
  shows "\<exists>s'. iteration env RequestComplete s = Returned s' \<and> \<not> doShutdown s' \<and>
     trace s' = trace s @ [StopCamera, Teardown, Log ''Shutting down!'', Sync, Reboot]"
  using assms
  by (simp add: iteration_def TakeImage_def DoShutdown_def teardown_def stop_camera_def
      emit_def)

lemma still_capture_keeps_shutdown:
  assumes "still_capture env s = Continue s'"
  shows "doShutdown s' = doShutdown s"
proof -
  let ?s1 = "emit [Log ''Still capture image received''] (stop_camera s)"
  obtain r s2 where g: "generate_filename env ?s1 = (r, s2)"
    by (cases "generate_filename env ?s1")
  from generate_filename_frame[OF g] have "doShutdown s2 = doShutdown s"
    by (simp add: emit_def stop_camera_def)
  with assms g show ?thesis
    by (auto simp: still_capture_def Let_def start_camera_def configure_viewfinder_def
        teardown_def emit_def split: sum.splits if_splits option.splits)
qed

lemma shutdown_kept:
  assumes "doShutdown s" "run [(env, ev)] s = Continue s'"
  shows "doShutdown s'"
proof (cases ev)
  case (Gpio gpio level tick)
  with assms show ?thesis by (auto simp: callback_keeps_shutdown)
next
  case (Msg msg)
  with assms(2) have it: "iteration env msg s = Continue s'"
    by (simp split: outcome.splits)
  show ?thesis
  proof (cases "msg = RequestComplete \<and> config s = StillCfg")
    case True
    with it have "still_capture env s = Continue s'" by (simp add: iteration_def)
    from still_capture_keeps_shutdown[OF this] assms(1) show ?thesis by simp
  next
    case False
    with it assms(1) show ?thesis
      by (cases msg)
         (auto simp: iteration_def start_camera_def stop_camera_def emit_def TakeImage_def
           DoShutdown_def teardown_def configure_still_def split: if_splits)
  qed
qed

lemma shutdown_after_capture:
  assumes "config s = ViewfinderCfg" "takeImage s" "doShutdown s"
    and "fst (generate_filename env2 s) = Inr f" "f = [] \<or> jpeg_save env2 f = None"
  shows "\<exists>s'. run [(env1, Msg RequestComplete), (env2, Msg RequestComplete),
                  (env3, Msg RequestComplete)] s = Returned s' \<and>
     \<not> doShutdown s' \<and> Reboot \<in> set (trace s')"
proof -
  from capture_first[OF assms(1,2), of env1] obtain s1 where
    s1: "iteration env1 RequestComplete s = Continue s1" "config s1 = StillCfg"
      "\<not> takeImage s1" "doShutdown s1 = doShutdown s" "dirs s1 = dirs s" by blast
  from generate_filename_dirs[OF s1(5), of env2] assms(4)
  have g: "fst (generate_filename env2 s1) = Inr f" by simp
  have "\<exists>s2. iteration env2 RequestComplete s1 = Continue s2 \<and> config s2 = ViewfinderCfg \<and>
      doShutdown s2 = doShutdown s1 \<and> takeImage s2 = takeImage s1"
  proof (cases "f = []")
    case True
    with still_no_destination[OF s1(2), of env2] g show ?thesis by auto
  next
    case False
    with assms(5) still_encoded[OF s1(2) g False] show ?thesis by auto
  qed
  then obtain s2 where
    s2: "iteration env2 RequestComplete s1 = Continue s2" "config s2 = ViewfinderCfg"
      "doShutdown s2 = doShutdown s1" "takeImage s2 = takeImage s1" by blast
  from shutdown_consumed[OF s2(2), of env3] s2(3,4) s1(3,4) assms(3) obtain s3 where
    "iteration env3 RequestComplete s2 = Returned s3" "\<not> doShutdown s3"
    "trace s3 = trace s2 @ [StopCamera, Teardown, Log ''Shutting down!'', Sync, Reboot]"
    by auto
  with s1(1) s2(1) show ?thesis by simp
qed

subsection \<open>Mode transitions\<close>

text \<open>
  Claim C3, as the specification states it: after a completed frame in Still mode the
  machine always reconfigures for Viewfinder and restarts the pipeline. It does not
  hold. The body of the loop has no handler, so an exception raised while the frame is
  saved leaves \<open>event_loop\<close> with the camera stopped and the Still configuration in
  place; the last mode configured is Still and \<open>main\<close> returns -1. This happens when the
  encoder throws (the first three conjuncts) and when \<^verbatim>\<open>create_directory\<close> throws
  (the last two, the defect of claim C5).
\<close>

theorem still_frame_exception_leaves_loop:
  "(case iteration unwritable_env RequestComplete still_state of
      Thrown e s \<Rightarrow> config s = StillCfg \<and> \<not> running s
    | Continue s \<Rightarrow> False
    | Returned s \<Rightarrow> False) \<and>
   mode_changes (trace (state_of (event_loop
      [(unwritable_env, Gpio KEY_MENU PI_LOW 0), (unwritable_env, Msg RequestComplete),
       (unwritable_env, Msg RequestComplete)] (app_init {})))) = [ViewfinderCfg, StillCfg] \<and>
   fst (main True True {}
      [(unwritable_env, Gpio KEY_MENU PI_LOW 0), (unwritable_env, Msg RequestComplete),
       (unwritable_env, Msg RequestComplete)]) = Some (- 1) \<and>
   (case iteration readonly_env RequestComplete still_state of
      Thrown e s \<Rightarrow> config s = StillCfg \<and> \<not> running s
    | Continue s \<Rightarrow> False
    | Returned s \<Rightarrow> False) \<and>
   mode_changes (trace (state_of (event_loop
      [(readonly_env, Gpio KEY_MENU PI_LOW 0), (readonly_env, Msg RequestComplete),
       (readonly_env, Msg RequestComplete)] (app_init {})))) = [ViewfinderCfg, StillCfg]"
  by (simp add: eval_defs)

text \<open>
  Claim C3, amended. In every execution of the event loop the modes that are
  configured alternate strictly, Viewfinder, Still, Viewfinder, and so on. A step
  enters Still only from Viewfinder, on a completed frame, with the capture flag set,
  and clears the flag in the same step. A completed frame in Still mode reconfigures
  for Viewfinder and restarts the pipeline when filename generation yields no
  destination (an error is logged, nothing is encoded) and when it yields a destination
  and the encoder returns. When the encoder throws, the exception leaves the loop: the
  camera stays stopped and Still stays the last mode configured.
\<close>

theorem modes_alternate:
  "spec_alternates ViewfinderCfg
     (mode_changes (trace (state_of (event_loop es (app_init ds))))) \<and>
   (config s \<noteq> StillCfg \<and> config (state_of (run [(env, ev)] s)) = StillCfg \<longrightarrow>
      ev = Msg RequestComplete \<and> config s = ViewfinderCfg \<and> takeImage s \<and>
      \<not> takeImage (state_of (run [(env, ev)] s)) \<and>
      trace (state_of (run [(env, ev)] s)) =
        trace s @ [StopCamera, Teardown, ConfigureStill, StartCamera]) \<and>
   (config s = StillCfg \<and> fst (generate_filename env s) = Inr [] \<longrightarrow>
      (\<exists>s' mid. iteration env RequestComplete s = Continue s' \<and>
         config s' = ViewfinderCfg \<and> running s' \<and> (\<forall>p. JpegSave p \<notin> set mid) \<and>
         trace s' = trace s @ StopCamera # mid @
           [LogError ''Cannot save image, no mounted drive!'', Teardown,
            ConfigureViewfinder, StartCamera])) \<and>
   (config s = StillCfg \<and> fst (generate_filename env s) = Inr f \<and> f \<noteq> [] \<and>
    jpeg_save env f = None \<longrightarrow>
      (\<exists>s' mid. iteration env RequestComplete s = Continue s' \<and>
         config s' = ViewfinderCfg \<and> running s' \<and>
         trace s' = trace s @ StopCamera # mid @
           [JpegSave f, Teardown, ConfigureViewfinder, StartCamera])) \<and>
   (config s = StillCfg \<and> fst (generate_filename env s) = Inr f \<and> f \<noteq> [] \<and>
    jpeg_save env f = Some e \<longrightarrow>
      (\<exists>s'. iteration env RequestComplete s = Thrown e s' \<and>
         config s' = StillCfg \<and> \<not> running s' \<and>
         mode_changes (trace s') = mode_changes (trace s)))"
proof (intro conjI impI)
  show "spec_alternates ViewfinderCfg
     (mode_changes (trace (state_of (event_loop es (app_init ds)))))"
    by (rule event_loop_alternates)
next
  assume a: "config s \<noteq> StillCfg \<and> config (state_of (run [(env, ev)] s)) = StillCfg"
  from still_entered_by_capture[of s env ev] a
  show "ev = Msg RequestComplete" "config s = ViewfinderCfg" "takeImage s"
    "\<not> takeImage (state_of (run [(env, ev)] s))"
    "trace (state_of (run [(env, ev)] s)) =
        trace s @ [StopCamera, Teardown, ConfigureStill, StartCamera]"
    by blast+
next
  assume "config s = StillCfg \<and> fst (generate_filename env s) = Inr []"
  then have "config s = StillCfg" "fst (generate_filename env s) = Inr []" by simp_all
  from still_no_destination[OF this]
  show "\<exists>s' mid. iteration env RequestComplete s = Continue s' \<and>
         config s' = ViewfinderCfg \<and> running s' \<and> (\<forall>p. JpegSave p \<notin> set mid) \<and>
         trace s' = trace s @ StopCamera # mid @
           [LogError ''Cannot save image, no mounted drive!'', Teardown,
            ConfigureViewfinder, StartCamera]"
    by blast
next
  assume "config s = StillCfg \<and> fst (generate_filename env s) = Inr f \<and> f \<noteq> [] \<and>
    jpeg_save env f = None"
  then have "config s = StillCfg" "fst (generate_filename env s) = Inr f" "f \<noteq> []"
    "jpeg_save env f = None" by simp_all
  from still_encoded[OF this]
  show "\<exists>s' mid. iteration env RequestComplete s = Continue s' \<and>
         config s' = ViewfinderCfg \<and> running s' \<and>
         trace s' = trace s @ StopCamera # mid @
           [JpegSave f, Teardown, ConfigureViewfinder, StartCamera]"
    by blast
next
  assume "config s = StillCfg \<and> fst (generate_filename env s) = Inr f \<and> f \<noteq> [] \<and>
    jpeg_save env f = Some e"
  then have "config s = StillCfg" "fst (generate_filename env s) = Inr f" "f \<noteq> []"
    "jpeg_save env f = Some e" by simp_all
  then show "\<exists>s'. iteration env RequestComplete s = Thrown e s' \<and>
         config s' = StillCfg \<and> \<not> running s' \<and>
         mode_changes (trace s') = mode_changes (trace s)"
    by (rule still_encoder_throws)
qed

theorem modes_alternate_witness:
  "mode_changes (trace (state_of (event_loop
     [(usb_env, Gpio KEY_MENU PI_LOW 5), (usb_env, Msg RequestComplete),
      (usb_env, Msg RequestComplete), (absent_env, Gpio KEY_MENU PI_LOW 9),
      (absent_env, Msg RequestComplete), (absent_env, Msg RequestComplete)]
     (app_init {})))) =
     [ViewfinderCfg, StillCfg, ViewfinderCfg, StillCfg, ViewfinderCfg] \<and>
   config (viewfinder_state\<lparr>takeImage := True\<rparr>) \<noteq> StillCfg \<and>
   config (state_of (run [(usb_env, Msg RequestComplete)]
     (viewfinder_state\<lparr>takeImage := True\<rparr>))) = StillCfg \<and>
   config still_state = StillCfg \<and>
   fst (generate_filename absent_env still_state) = Inr [] \<and>
   config (state_of (iteration absent_env RequestComplete still_state)) = ViewfinderCfg \<and>
   fst (generate_filename usb_env still_state) =
     Inr ''/media/usb/micropiscope/2024-01-02-03-04-05.jpg'' \<and>
   jpeg_save usb_env ''/media/usb/micropiscope/2024-01-02-03-04-05.jpg'' = None \<and>
   trace (state_of (iteration usb_env RequestComplete still_state)) =
     [OpenCamera, ConfigureViewfinder, StartCamera, StopCamera, Teardown, ConfigureStill,
      StartCamera, StopCamera, Log ''Still capture image received'',
      CreateDirectory ''/media/usb/micropiscope'',
      Print ''Saving image at /media/usb/micropiscope/2024-01-02-03-04-05.jpg'',
      JpegSave ''/media/usb/micropiscope/2024-01-02-03-04-05.jpg'', Teardown,
      ConfigureViewfinder, StartCamera] \<and>
   fst (generate_filename unwritable_env still_state) =
     Inr ''/media/usb/micropiscope/2024-01-02-03-04-05.jpg'' \<and>
   jpeg_save unwritable_env ''/media/usb/micropiscope/2024-01-02-03-04-05.jpg'' =
     Some (RuntimeError ''failed to open file'') \<and>
   config (state_of (iteration unwritable_env RequestComplete still_state)) = StillCfg \<and>
   \<not> running (state_of (iteration unwritable_env RequestComplete still_state))"
  using
    modes_alternate
      [where es = "[(usb_env, Gpio KEY_MENU PI_LOW 5), (usb_env, Msg RequestComplete),
          (usb_env, Msg RequestComplete), (absent_env, Gpio KEY_MENU PI_LOW 9),
          (absent_env, Msg RequestComplete), (absent_env, Msg RequestComplete)]"
        and ds = "{}" and s = "viewfinder_state\<lparr>takeImage := True\<rparr>" and env = usb_env
        and ev = "Msg RequestComplete" and f = "[]" and e = FilesystemError]
    modes_alternate
      [where es = "[]" and ds = "{}" and s = still_state and env = absent_env
        and ev = "Msg RequestComplete" and f = "[]" and e = FilesystemError]
    modes_alternate
      [where es = "[]" and ds = "{}" and s = still_state and env = usb_env
        and ev = "Msg RequestComplete"
        and f = "''/media/usb/micropiscope/2024-01-02-03-04-05.jpg''"
        and e = FilesystemError]
    modes_alternate
      [where es = "[]" and ds = "{}" and s = still_state and env = unwritable_env
        and ev = "Msg RequestComplete"
        and f = "''/media/usb/micropiscope/2024-01-02-03-04-05.jpg''"
        and e = "RuntimeError ''failed to open file''"]
  by (simp add: eval_defs)

subsection \<open>Capture before shutdown\<close>

text \<open>
  Claim C9. When both intents are pending at a completed Viewfinder frame, the capture
  branch is taken and the shutdown flag stays set. No step after which the loop goes
  on clears a set shutdown flag, so it stays set across the capture cycle, whatever
  else arrives. At a completed Viewfinder frame with only the shutdown pending, the
  flag is consumed and the device powers off. Together: with both intents pending and
  a capture cycle that completes (a destination and an encoder that returns, or no
  destination), the third completed frame powers the device off.
\<close>

theorem shutdown_survives_capture:
  "(config s = ViewfinderCfg \<and> takeImage s \<and> doShutdown s \<longrightarrow>
      (\<exists>s'. iteration env RequestComplete s = Continue s' \<and> config s' = StillCfg \<and>
         \<not> takeImage s' \<and> doShutdown s')) \<and>
   (doShutdown s \<and> run [(env, ev)] s = Continue t \<longrightarrow> doShutdown t) \<and>
   (config s = ViewfinderCfg \<and> \<not> takeImage s \<and> doShutdown s \<longrightarrow>
      (\<exists>s'. iteration env RequestComplete s = Returned s' \<and> \<not> doShutdown s' \<and>
         trace s' = trace s @ [StopCamera, Teardown, Log ''Shutting down!'', Sync, Reboot])) \<and>
   (config s = ViewfinderCfg \<and> takeImage s \<and> doShutdown s \<and>
    fst (generate_filename env_b s) = Inr f \<and> (f = [] \<or> jpeg_save env_b f = None) \<longrightarrow>
      (\<exists>s'. run [(env_a, Msg RequestComplete), (env_b, Msg RequestComplete),
                  (env_c, Msg RequestComplete)] s = Returned s' \<and>
         \<not> doShutdown s' \<and> Reboot \<in> set (trace s')))"
proof (intro conjI impI)
  assume "config s = ViewfinderCfg \<and> takeImage s \<and> doShutdown s"
  then have a: "config s = ViewfinderCfg" "takeImage s" "doShutdown s" by simp_all
  from capture_first[OF a(1,2), of env] a(3)
  show "\<exists>s'. iteration env RequestComplete s = Continue s' \<and> config s' = StillCfg \<and>
         \<not> takeImage s' \<and> doShutdown s'"
    by auto
next
  assume "doShutdown s \<and> run [(env, ev)] s = Continue t"
  then have "doShutdown s" "run [(env, ev)] s = Continue t" by simp_all
  then show "doShutdown t" by (rule shutdown_kept)
next
  assume "config s = ViewfinderCfg \<and> \<not> takeImage s \<and> doShutdown s"
  then have "config s = ViewfinderCfg" "\<not> takeImage s" "doShutdown s" by simp_all
  then show "\<exists>s'. iteration env RequestComplete s = Returned s' \<and> \<not> doShutdown s' \<and>
         trace s' = trace s @ [StopCamera, Teardown, Log ''Shutting down!'', Sync, Reboot]"
    by (rule shutdown_consumed)
next
  assume "config s = ViewfinderCfg \<and> takeImage s \<and> doShutdown s \<and>
    fst (generate_filename env_b s) = Inr f \<and> (f = [] \<or> jpeg_save env_b f = None)"
  then have "config s = ViewfinderCfg" "takeImage s" "doShutdown s"
    "fst (generate_filename env_b s) = Inr f" "f = [] \<or> jpeg_save env_b f = None"
    by simp_all
  then show "\<exists>s'. run [(env_a, Msg RequestComplete), (env_b, Msg RequestComplete),
                  (env_c, Msg RequestComplete)] s = Returned s' \<and>
         \<not> doShutdown s' \<and> Reboot \<in> set (trace s')"
    by (rule shutdown_after_capture)
qed

theorem shutdown_survives_capture_witness:
  "config both_pending = ViewfinderCfg \<and> takeImage both_pending \<and> doShutdown both_pending \<and>
   fst (generate_filename usb_env both_pending) =
     Inr ''/media/usb/micropiscope/2024-01-02-03-04-05.jpg'' \<and>
   jpeg_save usb_env ''/media/usb/micropiscope/2024-01-02-03-04-05.jpg'' = None \<and>
   doShutdown (state_of (iteration usb_env RequestComplete both_pending)) \<and>
   config (state_of (iteration usb_env RequestComplete both_pending)) = StillCfg \<and>
   \<not> doShutdown (state_of (run [(usb_env, Msg RequestComplete),
      (usb_env, Msg RequestComplete), (usb_env, Msg RequestComplete)] both_pending)) \<and>
   trace (state_of (run [(usb_env, Msg RequestComplete),
      (usb_env, Msg RequestComplete), (usb_env, Msg RequestComplete)] both_pending)) =
     [OpenCamera, ConfigureViewfinder, StartCamera,
      StopCamera, Teardown, ConfigureStill, StartCamera,
      StopCamera, Log ''Still capture image received'',
      CreateDirectory ''/media/usb/micropiscope'',
      Print ''Saving image at /media/usb/micropiscope/2024-01-02-03-04-05.jpg'',
      JpegSave ''/media/usb/micropiscope/2024-01-02-03-04-05.jpg'', Teardown,
      ConfigureViewfinder, StartCamera,
      StopCamera, Teardown, Log ''Shutting down!'', Sync, Reboot]"
  using shutdown_survives_capture
    [where s = both_pending and env = usb_env and ev = "Msg RequestComplete"
      and t = "state_of (iteration usb_env RequestComplete both_pending)"
      and env_a = usb_env and env_b = usb_env and env_c = usb_env
      and f = "''/media/usb/micropiscope/2024-01-02-03-04-05.jpg''"]
  by (simp add: eval_defs)

subsection \<open>A failure of storage that ends the process\<close>

text \<open>
  Claim C5 says that no failure of storage leaves the capture path. The source tests
  the result of \<^verbatim>\<open>create_directory\<close> and returns the empty string when it is false,
  but it calls the overload that throws: a \<^verbatim>\<open>mkdir\<close> that fails (here a stick that
  cannot be written) raises \<^verbatim>\<open>filesystem_error\<close>, which leaves \<open>generate_filename\<close>
  and \<open>event_loop\<close> and is caught in \<open>main\<close>, which returns -1. The camera is left
  stopped, in Still mode.
\<close>

theorem mkdir_failure_ends_process:
  "get_mount_location (proc_mounts readonly_env) = ''/media/usb'' \<and>
   mkdir readonly_env ''/media/usb/micropiscope'' = Failed \<and>
   fst (generate_filename readonly_env still_state) = Inl FilesystemError \<and>
   (case event_loop
      [(readonly_env, Gpio KEY_MENU PI_LOW 0), (readonly_env, Msg RequestComplete),
       (readonly_env, Msg RequestComplete)] (app_init {})
    of Thrown e s \<Rightarrow> e = FilesystemError \<and> config s = StillCfg \<and> \<not> running s
     | Continue s \<Rightarrow> False
     | Returned s \<Rightarrow> False) \<and>
   fst (main True True {}
      [(readonly_env, Gpio KEY_MENU PI_LOW 0), (readonly_env, Msg RequestComplete),
       (readonly_env, Msg RequestComplete)]) = Some (- 1)"
  by (simp add: eval_defs)

end
